theory Spec2Isabelle
  imports Complex_Main "HOL-Library.Word"
begin

unbundle bit_operations_syntax

section \<open>The MPR121 touch manager: data model\<close>

text \<open>
  The class \<open>MPR121Manager\<close> of \<open>MPR121_Config.h\<close> keeps one slot per port in parallel
  arrays of length \<open>maxPort = 12\<close>, and two 16-bit masks. The arrays are functions from the
  index; the code only ever indexes them below \<open>maxPort\<close>. The sensor handle \<open>cap\<close> is
  external: the one thing the engine takes from it is \<open>cap.filteredData(i)\<close>, a 16-bit
  sample per port, which the model receives as an argument of every operation that reads
  the sensor.
\<close>

type_synonym uint8_t = "8 word"
type_synonym uint16_t = "16 word"

record mpr121 =
  activePort :: uint16_t
  address :: uint8_t
  "value" :: "nat \<Rightarrow> real"
  minValue :: "nat \<Rightarrow> uint16_t"
  maxValue :: "nat \<Rightarrow> uint16_t"
  currentTouched :: uint16_t
  counter :: "nat \<Rightarrow> uint8_t"
  threshold :: "nat \<Rightarrow> real"
  touchMargin :: "nat \<Rightarrow> uint16_t"
  releaseMargin :: "nat \<Rightarrow> uint16_t"
  touchJuge :: "nat \<Rightarrow> uint8_t"
  releaseJuge :: "nat \<Rightarrow> uint8_t"

definition maxPort :: nat where
  "maxPort = 12"

subsection \<open>Floating point\<close>

text \<open>
  \<open>value[]\<close> and \<open>threshold[]\<close> are C++ \<open>float\<close>s. Every finite float is a real number and
  the comparisons \<open><\<close> and \<open>>\<close> of finite floats are those of the reals, so the stored
  numbers are modelled as \<open>real\<close>. The three places where the code computes with floats
  and the result is rounded are parameters of the model, since the source does not fix
  the width of \<open>double\<close>:
  \<^item> \<open>smooth raw v\<close> stands for \<open>alpha * raw + (1.0 - alpha) * v\<close>, stored to a \<open>float\<close>,
  \<^item> \<open>fsub v m\<close> for \<open>v - m\<close> and \<open>fadd v m\<close> for \<open>v + m\<close>, stored to a \<open>float\<close>.
  A conversion of a 16-bit integer to \<open>float\<close> is exact (24 bits of mantissa) and is
  \<open>to_float\<close>.
\<close>

record float_ops =
  smooth :: "real \<Rightarrow> real \<Rightarrow> real"
  fsub :: "real \<Rightarrow> real \<Rightarrow> real"
  fadd :: "real \<Rightarrow> real \<Rightarrow> real"

subsection \<open>IEEE 754 arithmetic\<close>

text \<open>
  Rounding to the nearest number of a binary format, ties to even, as the arithmetic of
  \<open>float\<close> (binary32: 24 bits of precision, least exponent -126) and of \<open>double\<close>
  (binary64: 53 bits, least exponent -1022) does. \<open>ulp_search n p e x\<close> is the spacing of
  the format with precision \<open>p\<close> around \<open>x\<close>: it looks for the binade of \<open>x\<close> from
  exponent \<open>e\<close> upwards, through at most \<open>n\<close> binades; below \<open>2 powi (e + 1)\<close> the spacing
  is that of the subnormal numbers. Magnitudes beyond the largest finite number, where
  the hardware gives an infinity, do not arise: no operand of the manager exceeds
  \<open>2 * 65535\<close>.
\<close>

definition round_even :: "real \<Rightarrow> int" where
  "round_even y =
     (let f = \<lfloor>y\<rfloor>; d = y - of_int f
      in if d < 1 / 2 then f else if 1 / 2 < d then f + 1 else if even f then f else f + 1)"

fun ulp_search :: "nat \<Rightarrow> int \<Rightarrow> int \<Rightarrow> real \<Rightarrow> real" where
  "ulp_search 0 p e x = 2 powi (e - p + 1)"
| "ulp_search (Suc n) p e x =
     (if \<bar>x\<bar> < 2 powi (e + 1) then 2 powi (e - p + 1) else ulp_search n p (e + 1) x)"

definition ulp32 :: "real \<Rightarrow> real" where
  "ulp32 x = ulp_search 253 24 (- 126) x"

definition ulp64 :: "real \<Rightarrow> real" where
  "ulp64 x = ulp_search 2045 53 (- 1022) x"

definition rnd32 :: "real \<Rightarrow> real" where
  "rnd32 x = ulp32 x * of_int (round_even (x / ulp32 x))"

definition rnd64 :: "real \<Rightarrow> real" where
  "rnd64 x = ulp64 x * of_int (round_even (x / ulp64 x))"

text \<open>
  \<open>const float alpha = 0.6\<close>: the \<open>double\<close> literal 0.6 stored to a \<open>float\<close>, which is
  \<open>5033165 / 8388608\<close> (lemma \<open>alpha_value\<close>).
\<close>

definition alpha :: real where
  "alpha = rnd32 (rnd64 0.6)"

text \<open>
  The arithmetic of the code where \<open>double\<close> is binary64 (the targets that have
  \<open><vector>\<close>): \<open>alpha * raw\<close> is a \<open>float\<close> product, \<open>1.0 - alpha\<close>, its product with
  \<open>value[i]\<close> and the sum are \<open>double\<close> operations, and the assignment rounds to \<open>float\<close>.
  \<open>value[i] - touchMargin[i]\<close> and \<open>value[i] + releaseMargin[i]\<close> are \<open>float\<close> operations.
\<close>

definition ieee_ops :: float_ops where
  "ieee_ops =
     \<lparr> smooth = (\<lambda>raw v. rnd32 (rnd64 (rnd32 (alpha * raw) + rnd64 (rnd64 (1.0 - alpha) * v)))),
       fsub = (\<lambda>v m. rnd32 (v - m)),
       fadd = (\<lambda>v m. rnd32 (v + m)) \<rparr>"

text \<open>The arithmetic of the code where \<open>double\<close> is binary32 as \<open>float\<close> is (AVR).\<close>

definition avr_ops :: float_ops where
  "avr_ops =
     \<lparr> smooth = (\<lambda>raw v. rnd32 (rnd32 (rnd32 (alpha * raw) + rnd32 (rnd32 (1.0 - alpha) * v)))),
       fsub = (\<lambda>v m. rnd32 (v - m)),
       fadd = (\<lambda>v m. rnd32 (v + m)) \<rparr>"

text \<open>
  The arithmetic in the words of the specification, \<open>smoothed = 0.6 * raw + (1 - 0.6) *
  previous\<close>: the reals, the coefficient 0.6 and no rounding. It is not the arithmetic of
  the code, which is \<open>ieee_ops\<close> or \<open>avr_ops\<close>. It states the formula of the specification
  and gives concrete runs of theorems that hold for every arithmetic; it is \<open>accurate\<close>
  too (lemma \<open>accurate_exact_ops\<close>).
\<close>

definition exact_ops :: float_ops where
  "exact_ops =
     \<lparr> smooth = (\<lambda>raw v. 0.6 * raw + (1.0 - 0.6) * v),
       fsub = (\<lambda>v m. v - m),
       fadd = (\<lambda>v m. v + m) \<rparr>"

text \<open>
  An arithmetic is \<open>accurate\<close> when, on operands between 0 and 1024, its three operations
  are within \<open>1 / 10\<close> of the exact results. \<open>ieee_ops\<close> and \<open>avr_ops\<close> are (lemmas
  \<open>accurate_ieee_ops\<close> and \<open>accurate_avr_ops\<close>).
\<close>

definition accurate :: "float_ops \<Rightarrow> bool" where
  "accurate fp \<longleftrightarrow>
     (\<forall>a b. 0 \<le> a \<and> a \<le> 1024 \<and> 0 \<le> b \<and> b \<le> 1024 \<longrightarrow>
        \<bar>smooth fp a b - (0.6 * a + 0.4 * b)\<bar> \<le> 1 / 10 \<and>
        \<bar>fsub fp a b - (a - b)\<bar> \<le> 1 / 10 \<and>
        \<bar>fadd fp a b - (a + b)\<bar> \<le> 1 / 10)"

definition to_float :: "uint16_t \<Rightarrow> real" where
  "to_float w = real (unat w)"

text \<open>
  Modelled from the spec: the macro \<open>constrain(amt, low, high)\<close> comes from the Arduino
  core header \<open>Arduino.h\<close>, which is not among the sources. The spec says that the smoothed
  value is clamped into \<open>[minValue, maxValue]\<close>; the definition is the core's macro
  \<open>((amt)<(low)?(low):((amt)>(high)?(high):(amt)))\<close>, applied to a float and two 16-bit
  bounds.
\<close>

definition constrain :: "real \<Rightarrow> uint16_t \<Rightarrow> uint16_t \<Rightarrow> real" where
  "constrain amt low high =
     (if amt < to_float low then to_float low
      else if amt > to_float high then to_float high
      else amt)"

section \<open>Operations\<close>

subsection \<open>Bit tests\<close>

text \<open>\<open>(w >> i) & 1\<close>, as the loops of the constructor and of \<open>update\<close> test a port.\<close>

definition shifted_bit :: "uint16_t \<Rightarrow> nat \<Rightarrow> bool" where
  "shifted_bit w i \<longleftrightarrow> drop_bit i w AND 1 \<noteq> 0"

text \<open>\<open>port < maxPort && (activePort & (1 << port))\<close>, the guard of \<open>isTouched\<close> and of the setters.\<close>

definition port_ok :: "mpr121 \<Rightarrow> uint8_t \<Rightarrow> bool" where
  "port_ok s port \<longleftrightarrow>
     unat port < maxPort \<and> activePort s AND push_bit (unat port) 1 \<noteq> 0"

subsection \<open>Constructor\<close>

text \<open>The body of the constructor's loop for port \<open>i\<close>; \<open>fd\<close> is \<open>cap.filteredData\<close>.\<close>

definition init_port :: "float_ops \<Rightarrow> (nat \<Rightarrow> uint16_t) \<Rightarrow> nat \<Rightarrow> mpr121 \<Rightarrow> mpr121" where
  "init_port fp fd i s =
     (if shifted_bit (activePort s) i then
        let s1 = s\<lparr>minValue := (minValue s)(i := 600)\<rparr>;
            s2 = s1\<lparr>maxValue := (maxValue s1)(i := 710)\<rparr>;
            s3 = s2\<lparr>value := (value s2)(i := to_float (fd i))\<rparr>;
            s4 = s3\<lparr>value := (value s3)(i := constrain (value s3 i) (minValue s3 i) (maxValue s3 i))\<rparr>;
            s5 = s4\<lparr>touchMargin := (touchMargin s4)(i := 30)\<rparr>;
            s6 = s5\<lparr>releaseMargin := (releaseMargin s5)(i := 20)\<rparr>;
            s7 = s6\<lparr>touchJuge := (touchJuge s6)(i := 15)\<rparr>;
            s8 = s7\<lparr>releaseJuge := (releaseJuge s7)(i := 15)\<rparr>;
            s9 = s8\<lparr>counter := (counter s8)(i := 0)\<rparr>
        in s9\<lparr>threshold := (threshold s9)(i := fsub fp (value s9 i) (to_float (touchMargin s9 i)))\<rparr>
      else s)"

text \<open>
  \<open>MPR121Manager(setAddress, usedPortMask)\<close>. The arrays of a new object are not
  initialised by C++: \<open>mem\<close> is the object as the constructor finds it, and only
  \<open>currentTouched\<close> has a default member initialiser (\<open>= 0\<close>).
\<close>

definition MPR121Manager ::
  "float_ops \<Rightarrow> mpr121 \<Rightarrow> uint8_t \<Rightarrow> uint16_t \<Rightarrow> (nat \<Rightarrow> uint16_t) \<Rightarrow> mpr121" where
  "MPR121Manager fp mem setAddress usedPortMask fd =
     fold (init_port fp fd) [0..<maxPort]
       (mem\<lparr>currentTouched := 0, activePort := usedPortMask, address := setAddress\<rparr>)"

subsection \<open>update\<close>

text \<open>The body of the loop of \<open>update\<close> for port \<open>i\<close>.\<close>

definition update_port :: "float_ops \<Rightarrow> (nat \<Rightarrow> uint16_t) \<Rightarrow> nat \<Rightarrow> mpr121 \<Rightarrow> mpr121" where
  "update_port fp fd i s =
     (if shifted_bit (activePort s) i then
        let raw = fd i;
            s1 = s\<lparr>value := (value s)(i := smooth fp (to_float raw) (value s i))\<rparr>;
            s2 = s1\<lparr>value := (value s1)(i := constrain (value s1 i) (minValue s1 i) (maxValue s1 i))\<rparr>;
            touched = shifted_bit (currentTouched s2) i;
            conditionMet = (if touched then value s2 i > threshold s2 i
                            else value s2 i < threshold s2 i);
            s3 = (if conditionMet then s2\<lparr>counter := (counter s2)(i := counter s2 i + 1)\<rparr>
                  else s2\<lparr>counter := (counter s2)(i := 0)\<rparr>)
        in if (\<not> touched \<and> counter s3 i > touchJuge s3 i) \<or> (touched \<and> counter s3 i > releaseJuge s3 i)
           then
             let s4 = s3\<lparr>currentTouched := currentTouched s3 XOR push_bit i 1\<rparr>;
                 s5 = s4\<lparr>counter := (counter s4)(i := 0)\<rparr>
             in if touched
                then s5\<lparr>threshold := (threshold s5)(i := fsub fp (value s5 i) (to_float (touchMargin s5 i)))\<rparr>
                else s5\<lparr>threshold := (threshold s5)(i := fadd fp (value s5 i) (to_float (releaseMargin s5 i)))\<rparr>
           else s3
      else s)"

definition update :: "float_ops \<Rightarrow> (nat \<Rightarrow> uint16_t) \<Rightarrow> mpr121 \<Rightarrow> mpr121" where
  "update fp fd s = fold (update_port fp fd) [0..<maxPort] s"

text \<open>A run of \<open>update\<close> calls, one sensor reading per call.\<close>

definition updates :: "float_ops \<Rightarrow> (nat \<Rightarrow> uint16_t) list \<Rightarrow> mpr121 \<Rightarrow> mpr121" where
  "updates fp fds s = fold (update fp) fds s"

subsection \<open>isTouched and the setters\<close>

definition isTouched :: "mpr121 \<Rightarrow> uint8_t \<Rightarrow> bool" where
  "isTouched s port =
     (if port_ok s port then
        let touched = shifted_bit (currentTouched s) (unat port) in touched
      else False)"

text \<open>The threshold that both margin setters store after their assignment.\<close>

definition rearm :: "float_ops \<Rightarrow> nat \<Rightarrow> mpr121 \<Rightarrow> mpr121" where
  "rearm fp p s =
     (let touched = shifted_bit (currentTouched s) p
      in if touched
         then s\<lparr>threshold := (threshold s)(p := fadd fp (value s p) (to_float (releaseMargin s p)))\<rparr>
         else s\<lparr>threshold := (threshold s)(p := fsub fp (value s p) (to_float (touchMargin s p)))\<rparr>)"

definition setTouchMargin :: "float_ops \<Rightarrow> uint8_t \<Rightarrow> uint8_t \<Rightarrow> mpr121 \<Rightarrow> mpr121" where
  "setTouchMargin fp port margin s =
     (if port_ok s port then
        rearm fp (unat port) (s\<lparr>touchMargin := (touchMargin s)(unat port := ucast margin)\<rparr>)
      else s)"

definition setReleaseMargin :: "float_ops \<Rightarrow> uint8_t \<Rightarrow> uint8_t \<Rightarrow> mpr121 \<Rightarrow> mpr121" where
  "setReleaseMargin fp port margin s =
     (if port_ok s port then
        rearm fp (unat port) (s\<lparr>releaseMargin := (releaseMargin s)(unat port := ucast margin)\<rparr>)
      else s)"

definition setSensorMinValue :: "uint8_t \<Rightarrow> uint16_t \<Rightarrow> mpr121 \<Rightarrow> mpr121" where
  "setSensorMinValue port v s =
     (if port_ok s port then s\<lparr>minValue := (minValue s)(unat port := v)\<rparr> else s)"

definition setSensorMaxValue :: "uint8_t \<Rightarrow> uint16_t \<Rightarrow> mpr121 \<Rightarrow> mpr121" where
  "setSensorMaxValue port v s =
     (if port_ok s port then s\<lparr>maxValue := (maxValue s)(unat port := v)\<rparr> else s)"

definition setTouchJugeCount :: "uint8_t \<Rightarrow> uint8_t \<Rightarrow> mpr121 \<Rightarrow> mpr121" where
  "setTouchJugeCount port count s =
     (if port_ok s port then s\<lparr>touchJuge := (touchJuge s)(unat port := count)\<rparr> else s)"

definition setReleaseJugeCount :: "uint8_t \<Rightarrow> uint8_t \<Rightarrow> mpr121 \<Rightarrow> mpr121" where
  "setReleaseJugeCount port count s =
     (if port_ok s port then s\<lparr>releaseJuge := (releaseJuge s)(unat port := count)\<rparr> else s)"

subsection \<open>Sequences of calls\<close>

datatype call =
    Update "nat \<Rightarrow> uint16_t"
  | SetTouchMargin uint8_t uint8_t
  | SetReleaseMargin uint8_t uint8_t
  | SetSensorMinValue uint8_t uint16_t
  | SetSensorMaxValue uint8_t uint16_t
  | SetTouchJugeCount uint8_t uint8_t
  | SetReleaseJugeCount uint8_t uint8_t

fun perform :: "float_ops \<Rightarrow> call \<Rightarrow> mpr121 \<Rightarrow> mpr121" where
  "perform fp (Update fd) s = update fp fd s"
| "perform fp (SetTouchMargin port margin) s = setTouchMargin fp port margin s"
| "perform fp (SetReleaseMargin port margin) s = setReleaseMargin fp port margin s"
| "perform fp (SetSensorMinValue port v) s = setSensorMinValue port v s"
| "perform fp (SetSensorMaxValue port v) s = setSensorMaxValue port v s"
| "perform fp (SetTouchJugeCount port count) s = setTouchJugeCount port count s"
| "perform fp (SetReleaseJugeCount port count) s = setReleaseJugeCount port count s"

definition run :: "float_ops \<Rightarrow> call list \<Rightarrow> mpr121 \<Rightarrow> mpr121" where
  "run fp calls s = fold (perform fp) calls s"

text \<open>An object whose memory is all zero, for concrete runs.\<close>

definition zero_mem :: mpr121 where
  "zero_mem =
     \<lparr> activePort = 0, address = 0, value = (\<lambda>_. 0), minValue = (\<lambda>_. 0), maxValue = (\<lambda>_. 0),
       currentTouched = 0, counter = (\<lambda>_. 0), threshold = (\<lambda>_. 0), touchMargin = (\<lambda>_. 0),
       releaseMargin = (\<lambda>_. 0), touchJuge = (\<lambda>_. 0), releaseJuge = (\<lambda>_. 0) \<rparr>"

text \<open>A manager on ports 0 and 1 of such an object, every sample of the seed being 650.\<close>

definition demo :: mpr121 where
  "demo = MPR121Manager exact_ops zero_mem 0x5A 3 (\<lambda>_. 650)"

text \<open>The same manager with port 0 touched: a touch confirm count of 0 and one cycle at sample 0.\<close>

definition touched_demo :: mpr121 where
  "touched_demo = update exact_ops (\<lambda>_. 0) (setTouchJugeCount 0 0 demo)"

section \<open>One port at a time\<close>

text \<open>
  The engine described in the words of the specification: the state of one port as one
  aggregate, and one cycle of one port as steps 1 to 6 of the specification's \<open>update()\<close>.
  \<open>chan s i\<close> reads the aggregate of port \<open>i\<close> out of the parallel arrays of the code;
  the theorems below compare the code with \<open>chan_update\<close>.
\<close>

record chan =
  active :: bool
  val :: real
  lo :: uint16_t
  hi :: uint16_t
  is_touched :: bool
  cnt :: uint8_t
  thr :: real
  tmargin :: uint16_t
  rmargin :: uint16_t
  tjuge :: uint8_t
  rjuge :: uint8_t

definition chan :: "mpr121 \<Rightarrow> nat \<Rightarrow> chan" where
  "chan s i =
     \<lparr> active = shifted_bit (activePort s) i, val = value s i, lo = minValue s i,
       hi = maxValue s i, is_touched = shifted_bit (currentTouched s) i, cnt = counter s i,
       thr = threshold s i, tmargin = touchMargin s i, rmargin = releaseMargin s i,
       tjuge = touchJuge s i, rjuge = releaseJuge s i \<rparr>"

text \<open>Steps 2 and 3: the smoothed and clamped value of the cycle.\<close>

definition smoothed :: "float_ops \<Rightarrow> uint16_t \<Rightarrow> chan \<Rightarrow> real" where
  "smoothed fp raw c = constrain (smooth fp (to_float raw) (val c)) (lo c) (hi c)"

text \<open>Step 4: the flip condition of the cycle.\<close>

definition condition_met :: "float_ops \<Rightarrow> uint16_t \<Rightarrow> chan \<Rightarrow> bool" where
  "condition_met fp raw c =
     (if is_touched c then smoothed fp raw c > thr c else smoothed fp raw c < thr c)"

text \<open>Step 5: the counter after counting the cycle (an 8-bit counter).\<close>

definition counted :: "float_ops \<Rightarrow> uint16_t \<Rightarrow> chan \<Rightarrow> uint8_t" where
  "counted fp raw c = (if condition_met fp raw c then cnt c + 1 else 0)"

text \<open>The confirm count of the current state.\<close>

definition confirm_count :: "chan \<Rightarrow> uint8_t" where
  "confirm_count c = (if is_touched c then rjuge c else tjuge c)"

text \<open>Step 6: whether the cycle flips the state, and the threshold of the new state.\<close>

definition flips :: "float_ops \<Rightarrow> uint16_t \<Rightarrow> chan \<Rightarrow> bool" where
  "flips fp raw c \<longleftrightarrow> counted fp raw c > confirm_count c"

definition flipped_threshold :: "float_ops \<Rightarrow> uint16_t \<Rightarrow> chan \<Rightarrow> real" where
  "flipped_threshold fp raw c =
     (if is_touched c then fsub fp (smoothed fp raw c) (to_float (tmargin c))
      else fadd fp (smoothed fp raw c) (to_float (rmargin c)))"

definition chan_update :: "float_ops \<Rightarrow> uint16_t \<Rightarrow> chan \<Rightarrow> chan" where
  "chan_update fp raw c =
     (if active c then
        if flips fp raw c
        then c\<lparr>val := smoothed fp raw c, is_touched := \<not> is_touched c, cnt := 0,
               thr := flipped_threshold fp raw c\<rparr>
        else c\<lparr>val := smoothed fp raw c, cnt := counted fp raw c\<rparr>
      else c)"

definition chan_updates :: "float_ops \<Rightarrow> uint16_t list \<Rightarrow> chan \<Rightarrow> chan" where
  "chan_updates fp raws c = fold (chan_update fp) raws c"

text \<open>The port as the specification's construction leaves it, seeded with \<open>raw\<close>.\<close>

definition chan_init :: "float_ops \<Rightarrow> uint16_t \<Rightarrow> chan" where
  "chan_init fp raw =
     \<lparr> active = True, val = constrain (to_float raw) 600 710, lo = 600, hi = 710,
       is_touched = False, cnt = 0,
       thr = fsub fp (constrain (to_float raw) 600 710) (to_float 30),
       tmargin = 30, rmargin = 20, tjuge = 15, rjuge = 15 \<rparr>"

text \<open>What a margin setter and what any call does to the aggregate of port \<open>i\<close>.\<close>

definition chan_rearm :: "float_ops \<Rightarrow> chan \<Rightarrow> chan" where
  "chan_rearm fp c =
     c\<lparr>thr := (if is_touched c then fadd fp (val c) (to_float (rmargin c))
               else fsub fp (val c) (to_float (tmargin c)))\<rparr>"

fun chan_perform :: "float_ops \<Rightarrow> call \<Rightarrow> nat \<Rightarrow> chan \<Rightarrow> chan" where
  "chan_perform fp (Update fd) i c = (if i < maxPort then chan_update fp (fd i) c else c)"
| "chan_perform fp (SetTouchMargin port margin) i c =
     (if unat port = i \<and> i < maxPort \<and> active c then chan_rearm fp (c\<lparr>tmargin := ucast margin\<rparr>) else c)"
| "chan_perform fp (SetReleaseMargin port margin) i c =
     (if unat port = i \<and> i < maxPort \<and> active c then chan_rearm fp (c\<lparr>rmargin := ucast margin\<rparr>) else c)"
| "chan_perform fp (SetSensorMinValue port v) i c =
     (if unat port = i \<and> i < maxPort \<and> active c then c\<lparr>lo := v\<rparr> else c)"
| "chan_perform fp (SetSensorMaxValue port v) i c =
     (if unat port = i \<and> i < maxPort \<and> active c then c\<lparr>hi := v\<rparr> else c)"
| "chan_perform fp (SetTouchJugeCount port n) i c =
     (if unat port = i \<and> i < maxPort \<and> active c then c\<lparr>tjuge := n\<rparr> else c)"
| "chan_perform fp (SetReleaseJugeCount port n) i c =
     (if unat port = i \<and> i < maxPort \<and> active c then c\<lparr>rjuge := n\<rparr> else c)"

text \<open>
  The flip condition along a run of cycles of one port, cycle by cycle, and what it means
  that the condition is never sustained for more than \<open>N\<close> consecutive cycles, \<open>n\<close>
  cycles being sustained already when the run starts.
\<close>

fun met_trace :: "float_ops \<Rightarrow> uint16_t list \<Rightarrow> chan \<Rightarrow> bool list" where
  "met_trace fp [] c = []"
| "met_trace fp (r # rs) c = condition_met fp r c # met_trace fp rs (chan_update fp r c)"

fun sustained_at_most :: "nat \<Rightarrow> nat \<Rightarrow> bool list \<Rightarrow> bool" where
  "sustained_at_most N n [] = True"
| "sustained_at_most N n (b # bs) =
     (if b then n + 1 \<le> N \<and> sustained_at_most N (n + 1) bs else sustained_at_most N 0 bs)"

text \<open>The manager \<open>demo\<close> with a touch confirm count of 2 on port 0, and a noisy run of samples.\<close>

definition quick_demo :: mpr121 where
  "quick_demo = setTouchJugeCount 0 2 demo"

definition noisy :: "(nat \<Rightarrow> uint16_t) list" where
  "noisy = [\<lambda>_. 0, \<lambda>_. 0, \<lambda>_. 700, \<lambda>_. 0, \<lambda>_. 0, \<lambda>_. 700]"

text \<open>
  Invariants of one port with the default bounds, for the runs below. \<open>counting\<close>: the
  port is released after construction with the smoothed value \<open>v0\<close>, is fed the sample
  \<open>r\<close> and has counted \<open>k\<close> cycles. \<open>holding\<close>: it is touched and its smoothed value
  stays at or below \<open>K\<close>, which is at or below its threshold. \<open>releasing\<close>: it is touched,
  is fed the sample 710 and has counted \<open>k\<close> cycles.
\<close>

definition counting :: "float_ops \<Rightarrow> real \<Rightarrow> uint16_t \<Rightarrow> nat \<Rightarrow> chan \<Rightarrow> bool" where
  "counting fp v0 r k c \<longleftrightarrow>
     active c \<and> lo c = 600 \<and> hi c = 710 \<and> \<not> is_touched c \<and> unat (cnt c) = k \<and>
     thr c = fsub fp v0 30 \<and> tjuge c = 15 \<and> rjuge c = 15 \<and> rmargin c = 20 \<and>
     600 \<le> val c \<and> val c \<le> v0 \<and> to_float r - 1 / 5 \<le> val c"

definition holding :: "uint16_t \<Rightarrow> real \<Rightarrow> chan \<Rightarrow> bool" where
  "holding r K c \<longleftrightarrow>
     active c \<and> lo c = 600 \<and> hi c = 710 \<and> is_touched c \<and> cnt c = 0 \<and> rjuge c = 15 \<and>
     600 \<le> val c \<and> val c \<le> 710 \<and> val c \<le> K \<and> K \<le> thr c \<and>
     600 + 1 / 5 \<le> K \<and> to_float r + 1 / 5 \<le> K"

definition releasing :: "nat \<Rightarrow> chan \<Rightarrow> bool" where
  "releasing k c \<longleftrightarrow>
     active c \<and> lo c = 600 \<and> hi c = 710 \<and> is_touched c \<and> unat (cnt c) = k \<and>
     rjuge c = 15 \<and> 600 \<le> val c \<and> val c \<le> 710 \<and> thr c \<le> 661"

text \<open>
  Managers on ports 0 and 1 of an object whose memory is all zero, with the arithmetic of
  the code: the seed samples are 700 (\<open>warm\<close>, \<open>warm_avr\<close>) and 650 (\<open>cool\<close>).
\<close>

definition warm :: mpr121 where
  "warm = MPR121Manager ieee_ops zero_mem 0x5A 3 (\<lambda>_. 700)"

definition warm_avr :: mpr121 where
  "warm_avr = MPR121Manager avr_ops zero_mem 0x5A 3 (\<lambda>_. 700)"

definition cool :: mpr121 where
  "cool = MPR121Manager ieee_ops zero_mem 0x5A 3 (\<lambda>_. 650)"

section \<open>Basic facts\<close>

lemma shifted_bit_iff: "shifted_bit w i \<longleftrightarrow> bit w i"
  by (simp add: shifted_bit_def bit_iff_and_drop_bit_eq_1 and_one_eq)

lemma port_ok_iff: "port_ok s port \<longleftrightarrow> unat port < maxPort \<and> bit (activePort s) (unat port)"
  by (simp add: port_ok_def bit_iff_and_push_bit_not_eq_0)

subsection \<open>The loops, port by port\<close>

lemma chan_update_port_other:
  "j \<noteq> i \<Longrightarrow> chan (update_port fp fd j s) i = chan s i"
  by (simp add: update_port_def chan_def Let_def shifted_bit_iff bit_simps)

lemma chan_update_port_same:
  "i < 16 \<Longrightarrow> chan (update_port fp fd i s) i = chan_update fp (fd i) (chan s i)"
  by (simp add: update_port_def chan_def chan_update_def Let_def shifted_bit_iff bit_simps
      flips_def counted_def condition_met_def smoothed_def confirm_count_def flipped_threshold_def)

lemma chan_fold_update_port:
  "distinct js \<Longrightarrow> \<forall>j\<in>set js. j < 16 \<Longrightarrow>
   chan (fold (update_port fp fd) js s) i =
     (if i \<in> set js then chan_update fp (fd i) (chan s i) else chan s i)"
proof (induction js arbitrary: s)
  case Nil
  then show ?case by simp
next
  case (Cons j js)
  show ?case
  proof (cases "i = j")
    case True
    with Cons show ?thesis by (simp add: chan_update_port_same)
  next
    case False
    with Cons show ?thesis by (simp add: chan_update_port_other)
  qed
qed

lemma chan_update_state:
  "chan (update fp fd s) i =
     (if i < maxPort then chan_update fp (fd i) (chan s i) else chan s i)"
  unfolding update_def by (subst chan_fold_update_port) (auto simp: maxPort_def)

lemma chan_updates_state:
  "chan (updates fp fds s) i =
     (if i < maxPort then chan_updates fp (map (\<lambda>fd. fd i) fds) (chan s i) else chan s i)"
  unfolding updates_def chan_updates_def
  by (induction fds arbitrary: s) (simp_all add: chan_update_state)

lemma frame_update_port:
  "activePort (update_port fp fd j s) = activePort s"
  "address (update_port fp fd j s) = address s"
  by (simp_all add: update_port_def Let_def)

lemma frame_fold_update_port:
  "activePort (fold (update_port fp fd) js s) = activePort s"
  "address (fold (update_port fp fd) js s) = address s"
  by (induction js arbitrary: s) (simp_all add: frame_update_port)

lemma frame_update:
  "activePort (update fp fd s) = activePort s"
  "address (update fp fd s) = address s"
  by (simp_all add: update_def frame_fold_update_port)

lemma chan_init_port_other:
  "j \<noteq> i \<Longrightarrow> chan (init_port fp fd j s) i = chan s i"
  by (simp add: init_port_def chan_def Let_def)

lemma chan_init_port_same:
  "chan (init_port fp fd i s) i =
     (if shifted_bit (activePort s) i
      then (chan_init fp (fd i))\<lparr>is_touched := shifted_bit (currentTouched s) i\<rparr>
      else chan s i)"
  by (simp add: init_port_def chan_def chan_init_def Let_def)

lemma frame_init_port:
  "activePort (init_port fp fd j s) = activePort s"
  "address (init_port fp fd j s) = address s"
  "currentTouched (init_port fp fd j s) = currentTouched s"
  by (simp_all add: init_port_def Let_def)

lemma frame_fold_init_port:
  "activePort (fold (init_port fp fd) js s) = activePort s"
  "address (fold (init_port fp fd) js s) = address s"
  "currentTouched (fold (init_port fp fd) js s) = currentTouched s"
  by (induction js arbitrary: s) (simp_all add: frame_init_port)

lemma chan_fold_init_port:
  "distinct js \<Longrightarrow>
   chan (fold (init_port fp fd) js s) i =
     (if i \<in> set js \<and> shifted_bit (activePort s) i
      then (chan_init fp (fd i))\<lparr>is_touched := shifted_bit (currentTouched s) i\<rparr>
      else chan s i)"
proof (induction js arbitrary: s)
  case Nil
  then show ?case by simp
next
  case (Cons j js)
  show ?case
  proof (cases "i = j")
    case True
    with Cons show ?thesis by (simp add: chan_init_port_same frame_init_port)
  next
    case False
    with Cons show ?thesis by (simp add: chan_init_port_other frame_init_port)
  qed
qed

lemma frame_MPR121Manager:
  "activePort (MPR121Manager fp mem a m fd) = m"
  "address (MPR121Manager fp mem a m fd) = a"
  "currentTouched (MPR121Manager fp mem a m fd) = 0"
  by (simp_all add: MPR121Manager_def frame_fold_init_port)

lemma chan_MPR121Manager:
  "chan (MPR121Manager fp mem a m fd) i =
     (if i < maxPort \<and> shifted_bit m i then chan_init fp (fd i)
      else (chan mem i)\<lparr>active := shifted_bit m i, is_touched := False\<rparr>)"
  unfolding MPR121Manager_def
  by (subst chan_fold_init_port) (auto simp: chan_def chan_init_def shifted_bit_iff)

lemma constructed_chan:
  "i < maxPort \<Longrightarrow> bit m i \<Longrightarrow> chan (MPR121Manager fp mem a m fd) i = chan_init fp (fd i)"
  by (simp add: chan_MPR121Manager shifted_bit_iff)

subsection \<open>Clamping and conversions\<close>

lemma to_float_mono: "a \<le> b \<Longrightarrow> to_float a \<le> to_float b"
  unfolding to_float_def by (simp only: of_nat_le_iff word_le_nat_alt)

lemma constrain_bounds:
  "low \<le> high \<Longrightarrow> to_float low \<le> constrain amt low high \<and> constrain amt low high \<le> to_float high"
  by (simp add: constrain_def to_float_mono)

lemma constrain_ge_low:
  "low \<le> high \<Longrightarrow> to_float low \<le> constrain amt low high"
  by (simp add: constrain_bounds)

lemma to_float_numeral [simp]:
  "to_float 600 = 600" "to_float 710 = 710" "to_float 30 = 30" "to_float 20 = 20"
  by (simp_all add: to_float_def)

lemma to_float_ucast: "to_float (ucast (m :: uint8_t)) = real (unat m)"
proof -
  have "uint (ucast m :: uint16_t) = uint m"
    by (rule uint_up_ucast) (simp add: is_up)
  then have "unat (ucast m :: uint16_t) = unat m"
    by (simp only: unat_eq_nat_uint)
  then show ?thesis
    by (simp only: to_float_def)
qed

subsection \<open>Rounding\<close>

lemma round_even_close: "\<bar>of_int (round_even y) - y\<bar> \<le> 1 / 2"
proof -
  have "of_int \<lfloor>y\<rfloor> \<le> y" "y < of_int \<lfloor>y\<rfloor> + 1"
    by linarith+
  then show ?thesis
    by (auto simp add: round_even_def Let_def)
qed

lemma ulp_search_pos: "0 < ulp_search n p e x"
  by (induction n arbitrary: e) simp_all

lemma ulp_search_le:
  "ulp_search n p e x \<le> max (2 powi (e - p + 1)) (\<bar>x\<bar> * 2 powi (1 - p))"
proof (induction n arbitrary: e)
  case 0
  then show ?case by simp
next
  case (Suc n)
  show ?case
  proof (cases "\<bar>x\<bar> < 2 powi (e + 1)")
    case True
    then show ?thesis by simp
  next
    case False
    then have "2 powi (e + 1) \<le> \<bar>x\<bar>"
      by simp
    then have "2 powi (e + 1) * 2 powi (1 - p) \<le> \<bar>x\<bar> * 2 powi (1 - p)"
      by (intro mult_right_mono) simp_all
    moreover have "(2 :: real) powi (e + 1) * 2 powi (1 - p) = 2 powi (e + 1 - p + 1)"
      by (simp flip: power_int_add add: algebra_simps)
    ultimately have "2 powi (e + 1 - p + 1) \<le> \<bar>x\<bar> * 2 powi (1 - p)"
      by simp
    with Suc.IH [of "e + 1"] have "ulp_search n p (e + 1) x \<le> \<bar>x\<bar> * 2 powi (1 - p)"
      by simp
    with False show ?thesis
      by simp
  qed
qed

lemma rnd_error:
  assumes "0 < u"
  shows "\<bar>u * of_int (round_even (x / u)) - x\<bar> \<le> u / 2"
proof -
  have "u * of_int (round_even (x / u)) - x = u * (of_int (round_even (x / u)) - x / u)"
    using assms by (simp add: algebra_simps)
  then have "\<bar>u * of_int (round_even (x / u)) - x\<bar> = u * \<bar>of_int (round_even (x / u)) - x / u\<bar>"
    using assms by (simp add: abs_mult)
  also have "\<dots> \<le> u * (1 / 2)"
    using assms round_even_close [of "x / u"] by (intro mult_left_mono) simp_all
  finally show ?thesis by simp
qed

lemma rnd32_error: "\<bar>rnd32 x - x\<bar> \<le> max (2 powi (- 150)) (\<bar>x\<bar> * 2 powi (- 24))"
proof -
  have u: "0 < ulp32 x" "ulp32 x \<le> max (2 powi (- 149)) (\<bar>x\<bar> * 2 powi (- 23))"
    using ulp_search_pos [of 253 24 "- 126" x] ulp_search_le [of 253 24 "- 126" x]
    by (simp_all add: ulp32_def)
  have "\<bar>rnd32 x - x\<bar> \<le> ulp32 x / 2"
    unfolding rnd32_def by (rule rnd_error [OF u(1)])
  also have "\<dots> \<le> max (2 powi (- 149)) (\<bar>x\<bar> * 2 powi (- 23)) / 2"
    using u(2) by simp
  also have "\<dots> = max (2 powi (- 150)) (\<bar>x\<bar> * 2 powi (- 24))"
    by (simp add: max_def power_int_minus field_simps)
  finally show ?thesis .
qed

lemma rnd64_error: "\<bar>rnd64 x - x\<bar> \<le> max (2 powi (- 1075)) (\<bar>x\<bar> * 2 powi (- 53))"
proof -
  have u: "0 < ulp64 x" "ulp64 x \<le> max (2 powi (- 1074)) (\<bar>x\<bar> * 2 powi (- 52))"
    using ulp_search_pos [of 2045 53 "- 1022" x] ulp_search_le [of 2045 53 "- 1022" x]
    by (simp_all add: ulp64_def)
  have "\<bar>rnd64 x - x\<bar> \<le> ulp64 x / 2"
    unfolding rnd64_def by (rule rnd_error [OF u(1)])
  also have "\<dots> \<le> max (2 powi (- 1074)) (\<bar>x\<bar> * 2 powi (- 52)) / 2"
    using u(2) by simp
  also have "\<dots> = max (2 powi (- 1075)) (\<bar>x\<bar> * 2 powi (- 53))"
    by (simp add: max_def power_int_minus field_simps)
  finally show ?thesis .
qed

lemma ulp_search_binade:
  assumes "2 powi e0 \<le> \<bar>x\<bar>" and "\<bar>x\<bar> < 2 powi (e0 + 1)"
    and "e \<le> e0" and "e0 \<le> e + int n"
  shows "ulp_search n p e x = 2 powi (e0 - p + 1)"
  using assms(3,4)
proof (induction n arbitrary: e)
  case 0
  then have "e = e0" by simp
  then show ?case by simp
next
  case (Suc n)
  show ?case
  proof (cases "\<bar>x\<bar> < 2 powi (e + 1)")
    case True
    have "\<not> e + 1 \<le> e0"
    proof
      assume "e + 1 \<le> e0"
      then have "(2 :: real) powi (e + 1) \<le> 2 powi e0"
        by (intro power_int_increasing) simp_all
      with True assms(1) show False by simp
    qed
    with Suc.prems have "e = e0" by simp
    with True show ?thesis by simp
  next
    case False
    have "\<not> e0 \<le> e"
    proof
      assume "e0 \<le> e"
      then have "(2 :: real) powi (e0 + 1) \<le> 2 powi (e + 1)"
        by (intro power_int_increasing) simp_all
      with False assms(2) show False by simp
    qed
    then have "e + 1 \<le> e0" "e0 \<le> e + 1 + int n"
      using Suc.prems by simp_all
    then have "ulp_search n p (e + 1) x = 2 powi (e0 - p + 1)"
      by (rule Suc.IH)
    with False show ?thesis by simp
  qed
qed

lemma rnd64_06: "rnd64 (6 / 10) = 5404319552844595 / 9007199254740992"
proof -
  have "ulp64 (6 / 10) = 2 powi (- 1 - 53 + 1)"
    unfolding ulp64_def by (rule ulp_search_binade) (simp_all add: power_int_minus)
  then have u: "ulp64 (6 / 10) = 1 / 9007199254740992"
    by (simp add: power_int_minus)
  show ?thesis
    unfolding rnd64_def u by (simp add: round_even_def Let_def)
qed

lemma rnd32_06: "rnd32 (5404319552844595 / 9007199254740992) = 5033165 / 8388608"
proof -
  have "ulp32 (5404319552844595 / 9007199254740992) = 2 powi (- 1 - 24 + 1)"
    unfolding ulp32_def by (rule ulp_search_binade) (simp_all add: power_int_minus)
  then have u: "ulp32 (5404319552844595 / 9007199254740992) = 1 / 16777216"
    by (simp add: power_int_minus)
  show ?thesis
    unfolding rnd32_def u by (simp add: round_even_def Let_def)
qed

subsection \<open>The arithmetic of the code is accurate\<close>

lemma alpha_value: "alpha = 5033165 / 8388608"
  unfolding alpha_def by (simp only: rnd64_06 rnd32_06)

lemma rnd32_close: "\<bar>x\<bar> \<le> 2048 \<Longrightarrow> \<bar>rnd32 x - x\<bar> \<le> 1 / 8192"
  using rnd32_error [of x] by (simp add: power_int_minus max_def split: if_splits)

lemma rnd64_close: "\<bar>x\<bar> \<le> 2048 \<Longrightarrow> \<bar>rnd64 x - x\<bar> \<le> 1 / 8192"
  using rnd64_error [of x] by (simp add: power_int_minus max_def split: if_splits)

lemma rnd32_close1: "\<bar>x\<bar> \<le> 1 \<Longrightarrow> \<bar>rnd32 x - x\<bar> \<le> 1 / 16777216"
  using rnd32_error [of x] by (simp add: power_int_minus max_def split: if_splits)

lemma rnd64_close1: "\<bar>x\<bar> \<le> 1 \<Longrightarrow> \<bar>rnd64 x - x\<bar> \<le> 1 / 16777216"
  using rnd64_error [of x] by (simp add: power_int_minus max_def split: if_splits)

lemma scaled_close:
  fixes x y d b M :: real
  assumes "\<bar>x - y\<bar> \<le> d" and "0 \<le> b" and "b \<le> M"
  shows "\<bar>x * b - y * b\<bar> \<le> d * M"
proof -
  have "\<bar>x * b - y * b\<bar> = \<bar>x - y\<bar> * b"
    using assms(2) by (simp add: abs_mult flip: left_diff_distrib)
  also have "\<dots> \<le> d * M"
    using assms by (intro mult_mono) simp_all
  finally show ?thesis .
qed

lemma smooth_accurate:
  fixes f g :: "real \<Rightarrow> real" and a b :: real
  assumes f: "\<And>x. \<bar>x\<bar> \<le> 2048 \<Longrightarrow> \<bar>f x - x\<bar> \<le> 1 / 8192"
    and g: "\<And>x. \<bar>x\<bar> \<le> 2048 \<Longrightarrow> \<bar>g x - x\<bar> \<le> 1 / 8192"
    and g1: "\<And>x. \<bar>x\<bar> \<le> 1 \<Longrightarrow> \<bar>g x - x\<bar> \<le> 1 / 16777216"
    and a: "0 \<le> a" "a \<le> 1024" and b: "0 \<le> b" "b \<le> 1024"
  shows "\<bar>f (g (f (alpha * a) + g (g (1.0 - alpha) * b))) - (0.6 * a + 0.4 * b)\<bar> \<le> 1 / 10"
proof -
  let ?c = "g (1.0 - alpha)"
  let ?A = "alpha * a"
  let ?B = "?c * b"
  let ?S = "f ?A + g ?B"
  have "\<bar>?c - (1.0 - alpha)\<bar> \<le> 1 / 16777216"
    by (rule g1) (simp add: alpha_value)
  moreover have "\<bar>(1.0 - alpha) - 4 / 10\<bar> \<le> 1 / 16777216"
    by (simp add: alpha_value)
  ultimately have c: "\<bar>?c - 4 / 10\<bar> \<le> 1 / 8388608"
    by linarith
  have A: "\<bar>?A - 6 / 10 * a\<bar> \<le> 1 / 8388608 * 1024"
    by (rule scaled_close [OF _ a]) (simp add: alpha_value)
  have B: "\<bar>?B - 4 / 10 * b\<bar> \<le> 1 / 8388608 * 1024"
    by (rule scaled_close [OF c b])
  have Ab: "\<bar>?A\<bar> \<le> 700"
    using A a by linarith
  have Bb: "\<bar>?B\<bar> \<le> 500"
    using B b by linarith
  have fA: "\<bar>f ?A - ?A\<bar> \<le> 1 / 8192"
    using Ab by (intro f) simp
  have gB: "\<bar>g ?B - ?B\<bar> \<le> 1 / 8192"
    using Bb by (intro g) simp
  have Sb: "\<bar>?S\<bar> \<le> 2048"
    using fA gB Ab Bb by linarith
  have gS: "\<bar>g ?S - ?S\<bar> \<le> 1 / 8192"
    using Sb by (rule g)
  have "\<bar>g ?S\<bar> \<le> 2048"
    using gS fA gB Ab Bb by linarith
  then have fgS: "\<bar>f (g ?S) - g ?S\<bar> \<le> 1 / 8192"
    by (rule f)
  show ?thesis
    using fgS gS fA gB A B by linarith
qed

lemma accurate_ieee_ops: "accurate ieee_ops"
  unfolding accurate_def
proof (intro allI impI conjI)
  fix a b :: real
  assume r: "0 \<le> a \<and> a \<le> 1024 \<and> 0 \<le> b \<and> b \<le> 1024"
  show "\<bar>smooth ieee_ops a b - (0.6 * a + 0.4 * b)\<bar> \<le> 1 / 10"
    using r by (simp only: ieee_ops_def float_ops.simps)
      (intro smooth_accurate rnd32_close rnd64_close rnd64_close1; simp)
  have d: "\<bar>a - b\<bar> \<le> 2048" "\<bar>a + b\<bar> \<le> 2048"
    using r by linarith+
  have e: "\<bar>rnd32 (a - b) - (a - b)\<bar> \<le> 1 / 8192" "\<bar>rnd32 (a + b) - (a + b)\<bar> \<le> 1 / 8192"
    by (rule rnd32_close [OF d(1)], rule rnd32_close [OF d(2)])
  have s: "fsub ieee_ops a b = rnd32 (a - b)" "fadd ieee_ops a b = rnd32 (a + b)"
    by (simp_all add: ieee_ops_def)
  show "\<bar>fsub ieee_ops a b - (a - b)\<bar> \<le> 1 / 10"
    unfolding s using e(1) by linarith
  show "\<bar>fadd ieee_ops a b - (a + b)\<bar> \<le> 1 / 10"
    unfolding s using e(2) by linarith
qed

lemma accurate_avr_ops: "accurate avr_ops"
  unfolding accurate_def
proof (intro allI impI conjI)
  fix a b :: real
  assume r: "0 \<le> a \<and> a \<le> 1024 \<and> 0 \<le> b \<and> b \<le> 1024"
  show "\<bar>smooth avr_ops a b - (0.6 * a + 0.4 * b)\<bar> \<le> 1 / 10"
    using r by (simp only: avr_ops_def float_ops.simps)
      (intro smooth_accurate rnd32_close rnd32_close1; simp)
  have d: "\<bar>a - b\<bar> \<le> 2048" "\<bar>a + b\<bar> \<le> 2048"
    using r by linarith+
  have e: "\<bar>rnd32 (a - b) - (a - b)\<bar> \<le> 1 / 8192" "\<bar>rnd32 (a + b) - (a + b)\<bar> \<le> 1 / 8192"
    by (rule rnd32_close [OF d(1)], rule rnd32_close [OF d(2)])
  have s: "fsub avr_ops a b = rnd32 (a - b)" "fadd avr_ops a b = rnd32 (a + b)"
    by (simp_all add: avr_ops_def)
  show "\<bar>fsub avr_ops a b - (a - b)\<bar> \<le> 1 / 10"
    unfolding s using e(1) by linarith
  show "\<bar>fadd avr_ops a b - (a + b)\<bar> \<le> 1 / 10"
    unfolding s using e(2) by linarith
qed

lemma accurate_exact_ops: "accurate exact_ops"
  by (simp add: accurate_def exact_ops_def)

subsection \<open>Fields of one port\<close>

lemma chan_sel:
  "active (chan s i) = shifted_bit (activePort s) i"
  "val (chan s i) = value s i"
  "lo (chan s i) = minValue s i"
  "hi (chan s i) = maxValue s i"
  "is_touched (chan s i) = shifted_bit (currentTouched s) i"
  "cnt (chan s i) = counter s i"
  "thr (chan s i) = threshold s i"
  "tmargin (chan s i) = touchMargin s i"
  "rmargin (chan s i) = releaseMargin s i"
  "tjuge (chan s i) = touchJuge s i"
  "rjuge (chan s i) = releaseJuge s i"
  by (simp_all add: chan_def)

lemma chan_update_keeps:
  "active (chan_update fp r c) = active c"
  "lo (chan_update fp r c) = lo c"
  "hi (chan_update fp r c) = hi c"
  "tmargin (chan_update fp r c) = tmargin c"
  "rmargin (chan_update fp r c) = rmargin c"
  "tjuge (chan_update fp r c) = tjuge c"
  "rjuge (chan_update fp r c) = rjuge c"
  by (simp_all add: chan_update_def)

lemma update_port_fields:
  assumes "i < maxPort"
  shows "value (update fp fd s) i = val (chan_update fp (fd i) (chan s i))"
    and "minValue (update fp fd s) i = minValue s i"
    and "maxValue (update fp fd s) i = maxValue s i"
    and "counter (update fp fd s) i = cnt (chan_update fp (fd i) (chan s i))"
    and "threshold (update fp fd s) i = thr (chan_update fp (fd i) (chan s i))"
    and "shifted_bit (currentTouched (update fp fd s)) i = is_touched (chan_update fp (fd i) (chan s i))"
    and "touchMargin (update fp fd s) i = touchMargin s i"
    and "releaseMargin (update fp fd s) i = releaseMargin s i"
    and "touchJuge (update fp fd s) i = touchJuge s i"
    and "releaseJuge (update fp fd s) i = releaseJuge s i"
proof -
  have c: "chan (update fp fd s) i = chan_update fp (fd i) (chan s i)"
    using assms by (simp add: chan_update_state)
  show "value (update fp fd s) i = val (chan_update fp (fd i) (chan s i))"
    using arg_cong [OF c, of val] by (simp only: chan_sel)
  show "minValue (update fp fd s) i = minValue s i"
    using arg_cong [OF c, of lo] by (simp only: chan_sel chan_update_keeps)
  show "maxValue (update fp fd s) i = maxValue s i"
    using arg_cong [OF c, of hi] by (simp only: chan_sel chan_update_keeps)
  show "counter (update fp fd s) i = cnt (chan_update fp (fd i) (chan s i))"
    using arg_cong [OF c, of cnt] by (simp only: chan_sel)
  show "threshold (update fp fd s) i = thr (chan_update fp (fd i) (chan s i))"
    using arg_cong [OF c, of thr] by (simp only: chan_sel)
  show "shifted_bit (currentTouched (update fp fd s)) i = is_touched (chan_update fp (fd i) (chan s i))"
    using arg_cong [OF c, of is_touched] by (simp only: chan_sel)
  show "touchMargin (update fp fd s) i = touchMargin s i"
    using arg_cong [OF c, of tmargin] by (simp only: chan_sel chan_update_keeps)
  show "releaseMargin (update fp fd s) i = releaseMargin s i"
    using arg_cong [OF c, of rmargin] by (simp only: chan_sel chan_update_keeps)
  show "touchJuge (update fp fd s) i = touchJuge s i"
    using arg_cong [OF c, of tjuge] by (simp only: chan_sel chan_update_keeps)
  show "releaseJuge (update fp fd s) i = releaseJuge s i"
    using arg_cong [OF c, of rjuge] by (simp only: chan_sel chan_update_keeps)
qed

subsection \<open>The manager \<open>demo\<close>\<close>

lemma demo_frame: "activePort demo = 3" "address demo = 0x5A" "currentTouched demo = 0"
  by (simp_all add: demo_def frame_MPR121Manager)

lemma demo_chan0:
  "chan demo 0 = \<lparr> active = True, val = 650, lo = 600, hi = 710, is_touched = False, cnt = 0,
      thr = 620, tmargin = 30, rmargin = 20, tjuge = 15, rjuge = 15 \<rparr>"
  by (simp add: demo_def chan_MPR121Manager maxPort_def shifted_bit_iff chan_init_def
      constrain_def exact_ops_def to_float_def)

lemma demo_port0:
  "value demo 0 = 650" "minValue demo 0 = 600" "maxValue demo 0 = 710" "counter demo 0 = 0"
  "threshold demo 0 = 620" "touchMargin demo 0 = 30" "releaseMargin demo 0 = 20"
  "touchJuge demo 0 = 15" "releaseJuge demo 0 = 15"
  using demo_chan0 by (simp_all add: chan_def)

section \<open>Construction\<close>

text \<open>
  C7. Construction with an address and a mask of active ports leaves every active port
  (a set bit below \<open>maxPort\<close>) with the bounds 600 and 710, the margins 30 and 20, both
  confirm counts 15, the counter 0, the smoothed value seeded with the one sample read
  and clamped into \<open>[600, 710]\<close>, the threshold at the smoothed value minus the touch
  margin, and the word of touch states 0, so that the port is released.
\<close>

theorem constructor_defaults:
  assumes "i < maxPort" and "bit usedPortMask i"
  shows "let s = MPR121Manager fp mem setAddress usedPortMask fd in
           activePort s = usedPortMask \<and>
           minValue s i = 600 \<and> maxValue s i = 710 \<and>
           touchMargin s i = 30 \<and> releaseMargin s i = 20 \<and>
           touchJuge s i = 15 \<and> releaseJuge s i = 15 \<and>
           counter s i = 0 \<and>
           value s i = constrain (to_float (fd i)) 600 710 \<and>
           600 \<le> value s i \<and> value s i \<le> 710 \<and>
           threshold s i = fsub fp (value s i) (to_float (touchMargin s i)) \<and>
           currentTouched s = 0 \<and> \<not> shifted_bit (currentTouched s) i"
proof -
  have c: "chan (MPR121Manager fp mem setAddress usedPortMask fd) i = chan_init fp (fd i)"
    using assms by (simp add: chan_MPR121Manager shifted_bit_iff)
  have b: "600 \<le> constrain (to_float (fd i)) 600 710 \<and> constrain (to_float (fd i)) 600 710 \<le> 710"
    using constrain_bounds [of 600 710 "to_float (fd i)"] by simp
  from c show ?thesis using b
    by (simp add: chan_def chan_init_def frame_MPR121Manager shifted_bit_iff Let_def)
qed

theorem constructor_defaults_witness:
  "(0::nat) < maxPort \<and> bit (3 :: uint16_t) (0::nat) \<and>
   (let s = MPR121Manager exact_ops zero_mem 0x5A 3 (\<lambda>_. 650) in
      activePort s = 3 \<and> minValue s 0 = 600 \<and> maxValue s 0 = 710 \<and>
      touchMargin s 0 = 30 \<and> releaseMargin s 0 = 20 \<and>
      touchJuge s 0 = 15 \<and> releaseJuge s 0 = 15 \<and> counter s 0 = 0 \<and>
      value s 0 = 650 \<and> threshold s 0 = 620 \<and> currentTouched s = 0)"
proof -
  have h: "bit (3 :: uint16_t) (0::nat)" by simp
  have m: "(0::nat) < maxPort" by (simp add: maxPort_def)
  show ?thesis
    using constructor_defaults [OF m h, of exact_ops zero_mem "0x5A" "\<lambda>_. 650"] m h
    by (simp add: Let_def constrain_def exact_ops_def to_float_def)
qed

section \<open>Smoothing and clamping\<close>



section \<open>The setters\<close>

lemma to_float_ucast_numeral: "to_float (ucast (40 :: uint8_t)) = 40"
  by (simp add: to_float_def)

text \<open>
  C5. On a port below \<open>maxPort\<close> whose bit is set in \<open>activePort\<close>, \<open>setTouchMargin\<close> and
  \<open>setReleaseMargin\<close> store the margin and at once store the port's threshold anew from
  its current state: the smoothed value plus the release margin when the port is touched,
  the smoothed value minus the touch margin when it is released, with the margin just
  stored. Nothing else of the manager changes.
\<close>

theorem margin_setters_rearm:
  assumes "unat port < maxPort" and "bit (activePort s) (unat port)"
  shows "setTouchMargin fp port margin s =
           s\<lparr>touchMargin := (touchMargin s)(unat port := ucast margin),
             threshold := (threshold s)(unat port :=
               (if bit (currentTouched s) (unat port)
                then fadd fp (value s (unat port)) (to_float (releaseMargin s (unat port)))
                else fsub fp (value s (unat port)) (to_float (ucast margin))))\<rparr> \<and>
         setReleaseMargin fp port margin s =
           s\<lparr>releaseMargin := (releaseMargin s)(unat port := ucast margin),
             threshold := (threshold s)(unat port :=
               (if bit (currentTouched s) (unat port)
                then fadd fp (value s (unat port)) (to_float (ucast margin))
                else fsub fp (value s (unat port)) (to_float (touchMargin s (unat port)))))\<rparr> \<and>
         to_float (ucast margin) = real (unat margin)"
  using assms
  by (simp add: setTouchMargin_def setReleaseMargin_def rearm_def port_ok_iff shifted_bit_iff
      to_float_ucast)

theorem margin_setters_rearm_witness:
  "unat (0 :: uint8_t) < maxPort \<and> bit (activePort demo) (unat (0 :: uint8_t)) \<and>
   touchMargin (setTouchMargin exact_ops 0 40 demo) 0 = 40 \<and>
   threshold (setTouchMargin exact_ops 0 40 demo) 0 = 610 \<and>
   releaseMargin (setReleaseMargin exact_ops 0 40 demo) 0 = 40 \<and>
   threshold (setReleaseMargin exact_ops 0 40 demo) 0 = 620"
proof -
  have m: "unat (0 :: uint8_t) < maxPort" by (simp add: maxPort_def)
  have h: "bit (activePort demo) (unat (0 :: uint8_t))" by (simp add: demo_frame)
  show ?thesis
    using margin_setters_rearm [OF m h, of exact_ops 40] m h
    by (simp add: demo_port0 demo_frame exact_ops_def to_float_ucast_numeral)
qed

text \<open>
  C6. For a port argument that is 12 or more, or whose bit is not set in \<open>activePort\<close>,
  \<open>isTouched\<close> answers false and each of the six setters returns the manager as it was.
  Every one of these functions is total: none of them has an error to report.
\<close>

theorem invalid_port_ignored:
  assumes "\<not> (unat port < maxPort \<and> bit (activePort s) (unat port))"
  shows "\<not> isTouched s port \<and>
         setTouchMargin fp port margin s = s \<and>
         setReleaseMargin fp port margin s = s \<and>
         setSensorMinValue port v s = s \<and>
         setSensorMaxValue port v s = s \<and>
         setTouchJugeCount port count s = s \<and>
         setReleaseJugeCount port count s = s"
proof -
  have "\<not> port_ok s port"
    using assms by (simp only: port_ok_iff not_False_eq_True)
  then show ?thesis
    by (simp add: isTouched_def setTouchMargin_def setReleaseMargin_def setSensorMinValue_def
        setSensorMaxValue_def setTouchJugeCount_def setReleaseJugeCount_def)
qed

theorem invalid_port_ignored_witness:
  "\<not> (unat (5 :: uint8_t) < maxPort \<and> bit (activePort demo) (unat (5 :: uint8_t))) \<and>
   \<not> (unat (200 :: uint8_t) < maxPort \<and> bit (activePort demo) (unat (200 :: uint8_t))) \<and>
   \<not> isTouched demo 5 \<and> \<not> isTouched demo 200 \<and>
   setTouchMargin exact_ops 5 40 demo = demo \<and>
   setReleaseMargin exact_ops 200 40 demo = demo \<and>
   setSensorMinValue 5 500 demo = demo \<and>
   setSensorMaxValue 200 720 demo = demo \<and>
   setTouchJugeCount 5 10 demo = demo \<and>
   setReleaseJugeCount 200 10 demo = demo"
proof -
  have a: "\<not> (unat (5 :: uint8_t) < maxPort \<and> bit (activePort demo) (unat (5 :: uint8_t)))"
    by (simp add: demo_frame)
  have b: "\<not> (unat (200 :: uint8_t) < maxPort \<and> bit (activePort demo) (unat (200 :: uint8_t)))"
    by (simp add: maxPort_def)
  show ?thesis
    using invalid_port_ignored [OF a, of exact_ops 40 500 10]
      invalid_port_ignored [OF b, of exact_ops 40 720 10] a b
    by simp
qed

lemma to_float_strict: "a < b \<Longrightarrow> to_float a < to_float b"
  unfolding to_float_def by (simp only: of_nat_less_iff word_less_nat_alt)

lemma constrain_disordered:
  assumes "high < low"
  shows "\<not> (to_float low \<le> constrain amt low high \<and> constrain amt low high \<le> to_float high)"
  using to_float_strict [OF assms] by (simp add: constrain_def)

lemma cool_port0:
  "activePort cool = 3" "value cool 0 = 650" "minValue cool 0 = 600" "maxValue cool 0 = 710"
proof -
  have c: "chan cool 0 = chan_init ieee_ops 650"
    unfolding cool_def by (rule constructed_chan) (simp_all add: maxPort_def)
  show "activePort cool = 3"
    by (simp add: cool_def frame_MPR121Manager)
  show "value cool 0 = 650"
    using arg_cong [OF c, of val] by (simp only: chan_sel) (simp add: chan_init_def constrain_def to_float_def)
  show "minValue cool 0 = 600"
    using arg_cong [OF c, of lo] by (simp only: chan_sel) (simp add: chan_init_def)
  show "maxValue cool 0 = 710"
    using arg_cong [OF c, of hi] by (simp only: chan_sel) (simp add: chan_init_def)
qed

text \<open>
  C10, as amended. On a valid active port \<open>setSensorMinValue\<close> and \<open>setSensorMaxValue\<close>
  change the stored bound and nothing else: the smoothed value is not clamped again and
  the threshold is not computed again. So a lower bound raised above the smoothed value
  (or an upper bound lowered below it) leaves the value outside the bounds. The next
  \<open>update\<close> clamps it between them again when the new bound leaves \<open>minValue \<le> maxValue\<close>;
  when the new lower bound is above \<open>maxValue\<close>, or the new upper bound below
  \<open>minValue\<close>, the value is outside the bounds after the next \<open>update\<close> too. This holds
  for every arithmetic.
\<close>
theorem bound_setters_keep_value:
  assumes "unat port < maxPort" and "bit (activePort s) (unat port)"
  shows "setSensorMinValue port v s = s\<lparr>minValue := (minValue s)(unat port := v)\<rparr> \<and>
         setSensorMaxValue port v s = s\<lparr>maxValue := (maxValue s)(unat port := v)\<rparr> \<and>
         (value s (unat port) < to_float v \<longrightarrow>
            \<not> to_float (minValue (setSensorMinValue port v s) (unat port))
                \<le> value (setSensorMinValue port v s) (unat port)) \<and>
         (to_float v < value s (unat port) \<longrightarrow>
            \<not> value (setSensorMaxValue port v s) (unat port)
                \<le> to_float (maxValue (setSensorMaxValue port v s) (unat port))) \<and>
         (v \<le> maxValue s (unat port) \<longrightarrow>
            (let s' = update fp fd (setSensorMinValue port v s)
             in to_float (minValue s' (unat port)) \<le> value s' (unat port) \<and>
                value s' (unat port) \<le> to_float (maxValue s' (unat port)))) \<and>
         (minValue s (unat port) \<le> v \<longrightarrow>
            (let s' = update fp fd (setSensorMaxValue port v s)
             in to_float (minValue s' (unat port)) \<le> value s' (unat port) \<and>
                value s' (unat port) \<le> to_float (maxValue s' (unat port)))) \<and>
         (maxValue s (unat port) < v \<longrightarrow>
            (let s' = update fp fd (setSensorMinValue port v s)
             in \<not> (to_float (minValue s' (unat port)) \<le> value s' (unat port) \<and>
                   value s' (unat port) \<le> to_float (maxValue s' (unat port))))) \<and>
         (v < minValue s (unat port) \<longrightarrow>
            (let s' = update fp fd (setSensorMaxValue port v s)
             in \<not> (to_float (minValue s' (unat port)) \<le> value s' (unat port) \<and>
                   value s' (unat port) \<le> to_float (maxValue s' (unat port)))))"
proof -
  let ?p = "unat port"
  let ?lo = "s\<lparr>minValue := (minValue s)(?p := v)\<rparr>"
  let ?hi = "s\<lparr>maxValue := (maxValue s)(?p := v)\<rparr>"
  have ok: "port_ok s port"
    using assms by (simp add: port_ok_iff)
  have lo: "setSensorMinValue port v s = ?lo"
    using ok by (simp add: setSensorMinValue_def)
  have hi: "setSensorMaxValue port v s = ?hi"
    using ok by (simp add: setSensorMaxValue_def)
  have vlo: "value (update fp fd ?lo) ?p =
      constrain (smooth fp (to_float (fd ?p)) (value s ?p)) v (maxValue s ?p)"
    using assms by (simp add: update_port_fields chan_update_def smoothed_def chan_sel shifted_bit_iff)
  have vhi: "value (update fp fd ?hi) ?p =
      constrain (smooth fp (to_float (fd ?p)) (value s ?p)) (minValue s ?p) v"
    using assms by (simp add: update_port_fields chan_update_def smoothed_def chan_sel shifted_bit_iff)
  have blo: "v \<le> maxValue s ?p \<longrightarrow>
      to_float (minValue (update fp fd ?lo) ?p) \<le> value (update fp fd ?lo) ?p \<and>
      value (update fp fd ?lo) ?p \<le> to_float (maxValue (update fp fd ?lo) ?p)"
    using assms(1) vlo constrain_bounds [of v "maxValue s ?p"]
    by (simp add: update_port_fields)
  have bhi: "minValue s ?p \<le> v \<longrightarrow>
      to_float (minValue (update fp fd ?hi) ?p) \<le> value (update fp fd ?hi) ?p \<and>
      value (update fp fd ?hi) ?p \<le> to_float (maxValue (update fp fd ?hi) ?p)"
    using assms(1) vhi constrain_bounds [of "minValue s ?p" v]
    by (simp add: update_port_fields)
  have nlo: "maxValue s ?p < v \<longrightarrow>
      \<not> (to_float (minValue (update fp fd ?lo) ?p) \<le> value (update fp fd ?lo) ?p \<and>
         value (update fp fd ?lo) ?p \<le> to_float (maxValue (update fp fd ?lo) ?p))"
    using assms(1) vlo constrain_disordered [of "maxValue s ?p" v]
    by (simp add: update_port_fields)
  have nhi: "v < minValue s ?p \<longrightarrow>
      \<not> (to_float (minValue (update fp fd ?hi) ?p) \<le> value (update fp fd ?hi) ?p \<and>
         value (update fp fd ?hi) ?p \<le> to_float (maxValue (update fp fd ?hi) ?p))"
    using assms(1) vhi constrain_disordered [of v "minValue s ?p"]
    by (simp add: update_port_fields)
  show ?thesis
    unfolding lo hi Let_def using blo bhi nlo nhi by simp
qed

theorem bound_setters_keep_value_witness:
  "unat (0 :: uint8_t) < maxPort \<and> bit (activePort cool) (unat (0 :: uint8_t)) \<and>
   value cool (unat (0 :: uint8_t)) < to_float 660 \<and>
   setSensorMinValue 0 660 cool = cool\<lparr>minValue := (minValue cool)(unat (0 :: uint8_t) := 660)\<rparr> \<and>
   \<not> to_float (minValue (setSensorMinValue 0 660 cool) (unat (0 :: uint8_t)))
       \<le> value (setSensorMinValue 0 660 cool) (unat (0 :: uint8_t)) \<and>
   660 \<le> maxValue cool (unat (0 :: uint8_t)) \<and>
   (let s' = update ieee_ops (\<lambda>_. 650) (setSensorMinValue 0 660 cool)
    in to_float (minValue s' (unat (0 :: uint8_t))) \<le> value s' (unat (0 :: uint8_t)) \<and>
       value s' (unat (0 :: uint8_t)) \<le> to_float (maxValue s' (unat (0 :: uint8_t)))) \<and>
   to_float 640 < value cool (unat (0 :: uint8_t)) \<and>
   setSensorMaxValue 0 640 cool = cool\<lparr>maxValue := (maxValue cool)(unat (0 :: uint8_t) := 640)\<rparr> \<and>
   \<not> value (setSensorMaxValue 0 640 cool) (unat (0 :: uint8_t))
       \<le> to_float (maxValue (setSensorMaxValue 0 640 cool) (unat (0 :: uint8_t))) \<and>
   minValue cool (unat (0 :: uint8_t)) \<le> 640 \<and>
   (let s' = update ieee_ops (\<lambda>_. 650) (setSensorMaxValue 0 640 cool)
    in to_float (minValue s' (unat (0 :: uint8_t))) \<le> value s' (unat (0 :: uint8_t)) \<and>
       value s' (unat (0 :: uint8_t)) \<le> to_float (maxValue s' (unat (0 :: uint8_t)))) \<and>
   maxValue cool (unat (0 :: uint8_t)) < 720 \<and>
   (let s' = update ieee_ops (\<lambda>_. 650) (setSensorMinValue 0 720 cool)
    in \<not> (to_float (minValue s' (unat (0 :: uint8_t))) \<le> value s' (unat (0 :: uint8_t)) \<and>
          value s' (unat (0 :: uint8_t)) \<le> to_float (maxValue s' (unat (0 :: uint8_t))))) \<and>
   590 < minValue cool (unat (0 :: uint8_t)) \<and>
   (let s' = update ieee_ops (\<lambda>_. 650) (setSensorMaxValue 0 590 cool)
    in \<not> (to_float (minValue s' (unat (0 :: uint8_t))) \<le> value s' (unat (0 :: uint8_t)) \<and>
          value s' (unat (0 :: uint8_t)) \<le> to_float (maxValue s' (unat (0 :: uint8_t)))))"
proof -
  have m: "unat (0 :: uint8_t) < maxPort" by (simp add: maxPort_def)
  have h: "bit (activePort cool) (unat (0 :: uint8_t))" by (simp add: cool_port0)
  have a: "value cool (unat (0 :: uint8_t)) < to_float 660"
    by (simp add: cool_port0 to_float_def)
  have b: "660 \<le> maxValue cool (unat (0 :: uint8_t))"
    by (simp add: cool_port0)
  have c: "to_float 640 < value cool (unat (0 :: uint8_t))"
    by (simp add: cool_port0 to_float_def)
  have d: "minValue cool (unat (0 :: uint8_t)) \<le> 640"
    by (simp add: cool_port0)
  have e: "maxValue cool (unat (0 :: uint8_t)) < 720"
    by (simp add: cool_port0)
  have f: "590 < minValue cool (unat (0 :: uint8_t))"
    by (simp add: cool_port0)
  note t1 = bound_setters_keep_value [OF m h, of 660 ieee_ops "\<lambda>_. 650"]
  note t2 = bound_setters_keep_value [OF m h, of 640 ieee_ops "\<lambda>_. 650"]
  note t3 = bound_setters_keep_value [OF m h, of 720 ieee_ops "\<lambda>_. 650"]
  note t4 = bound_setters_keep_value [OF m h, of 590 ieee_ops "\<lambda>_. 650"]
  have x1: "setSensorMinValue 0 660 cool = cool\<lparr>minValue := (minValue cool)(unat (0 :: uint8_t) := 660)\<rparr>"
    using t1 by (rule conjunct1)
  have x2: "\<not> to_float (minValue (setSensorMinValue 0 660 cool) (unat (0 :: uint8_t)))
       \<le> value (setSensorMinValue 0 660 cool) (unat (0 :: uint8_t))"
    using t1 a by blast
  have x3: "let s' = update ieee_ops (\<lambda>_. 650) (setSensorMinValue 0 660 cool)
    in to_float (minValue s' (unat (0 :: uint8_t))) \<le> value s' (unat (0 :: uint8_t)) \<and>
       value s' (unat (0 :: uint8_t)) \<le> to_float (maxValue s' (unat (0 :: uint8_t)))"
    using t1 b by blast
  have y1: "setSensorMaxValue 0 640 cool = cool\<lparr>maxValue := (maxValue cool)(unat (0 :: uint8_t) := 640)\<rparr>"
    using t2 by blast
  have y2: "\<not> value (setSensorMaxValue 0 640 cool) (unat (0 :: uint8_t))
       \<le> to_float (maxValue (setSensorMaxValue 0 640 cool) (unat (0 :: uint8_t)))"
    using t2 c by blast
  have y3: "let s' = update ieee_ops (\<lambda>_. 650) (setSensorMaxValue 0 640 cool)
    in to_float (minValue s' (unat (0 :: uint8_t))) \<le> value s' (unat (0 :: uint8_t)) \<and>
       value s' (unat (0 :: uint8_t)) \<le> to_float (maxValue s' (unat (0 :: uint8_t)))"
    using t2 d by blast
  have z1: "let s' = update ieee_ops (\<lambda>_. 650) (setSensorMinValue 0 720 cool)
    in \<not> (to_float (minValue s' (unat (0 :: uint8_t))) \<le> value s' (unat (0 :: uint8_t)) \<and>
          value s' (unat (0 :: uint8_t)) \<le> to_float (maxValue s' (unat (0 :: uint8_t))))"
    using t3 e by blast
  have z2: "let s' = update ieee_ops (\<lambda>_. 650) (setSensorMaxValue 0 590 cool)
    in \<not> (to_float (minValue s' (unat (0 :: uint8_t))) \<le> value s' (unat (0 :: uint8_t)) \<and>
          value s' (unat (0 :: uint8_t)) \<le> to_float (maxValue s' (unat (0 :: uint8_t))))"
    using t4 f by blast
  show ?thesis
    by (intro conjI m h a b c d e f x1 x2 x3 y1 y2 y3 z1 z2)
qed

text \<open>
  C10 as stated fails: it has the next \<open>update\<close> restore \<open>minValue \<le> value \<le> maxValue\<close>
  whatever bound was set. After \<open>setSensorMinValue(0, 720)\<close> on a port with the upper bound
  710, and after \<open>setSensorMaxValue(0, 590)\<close> on a port with the lower bound 600, the value
  is outside the bounds after the next \<open>update\<close>.
\<close>
theorem bound_restored_counterexample:
  "unat (0 :: uint8_t) < maxPort \<and> bit (activePort cool) (unat (0 :: uint8_t)) \<and>
   value cool 0 = 650 \<and> minValue cool 0 = 600 \<and> maxValue cool 0 = 710 \<and>
   (let s' = update ieee_ops (\<lambda>_. 650) (setSensorMinValue 0 720 cool)
    in \<not> (to_float (minValue s' 0) \<le> value s' 0 \<and> value s' 0 \<le> to_float (maxValue s' 0))) \<and>
   (let s' = update ieee_ops (\<lambda>_. 650) (setSensorMaxValue 0 590 cool)
    in \<not> (to_float (minValue s' 0) \<le> value s' 0 \<and> value s' 0 \<le> to_float (maxValue s' 0)))"
proof -
  have ok: "port_ok cool 0"
    by (simp add: port_ok_iff maxPort_def cool_port0)
  have a: "(0 :: nat) < maxPort" "shifted_bit (activePort cool) 0"
    by (simp_all add: maxPort_def cool_port0 shifted_bit_iff)
  let ?lo = "cool\<lparr>minValue := (minValue cool)(0 := 720)\<rparr>"
  let ?hi = "cool\<lparr>maxValue := (maxValue cool)(0 := 590)\<rparr>"
  have lo: "setSensorMinValue 0 720 cool = ?lo"
    using ok by (simp add: setSensorMinValue_def)
  have hi: "setSensorMaxValue 0 590 cool = ?hi"
    using ok by (simp add: setSensorMaxValue_def)
  have vlo: "value (update ieee_ops (\<lambda>_. 650) ?lo) 0 =
      constrain (smooth ieee_ops (to_float 650) (value cool 0)) 720 710"
    using a by (simp add: update_port_fields chan_update_def smoothed_def chan_sel cool_port0)
  have vhi: "value (update ieee_ops (\<lambda>_. 650) ?hi) 0 =
      constrain (smooth ieee_ops (to_float 650) (value cool 0)) 600 590"
    using a by (simp add: update_port_fields chan_update_def smoothed_def chan_sel cool_port0)
  have nlo: "\<not> (to_float (minValue (update ieee_ops (\<lambda>_. 650) ?lo) 0) \<le> value (update ieee_ops (\<lambda>_. 650) ?lo) 0 \<and>
      value (update ieee_ops (\<lambda>_. 650) ?lo) 0 \<le> to_float (maxValue (update ieee_ops (\<lambda>_. 650) ?lo) 0))"
    using a(1) vlo constrain_disordered [of 710 720]
    by (simp add: update_port_fields cool_port0)
  have nhi: "\<not> (to_float (minValue (update ieee_ops (\<lambda>_. 650) ?hi) 0) \<le> value (update ieee_ops (\<lambda>_. 650) ?hi) 0 \<and>
      value (update ieee_ops (\<lambda>_. 650) ?hi) 0 \<le> to_float (maxValue (update ieee_ops (\<lambda>_. 650) ?hi) 0))"
    using a(1) vhi constrain_disordered [of 590 600]
    by (simp add: update_port_fields cool_port0)
  show ?thesis
    unfolding lo hi Let_def using nlo nhi a(1) by (simp add: cool_port0)
qed

section \<open>A confirm count of 255\<close>

lemma uint8_not_above_255: "\<not> (255 :: uint8_t) < c"
proof -
  have "unat c < 2 ^ 8"
    using unsigned_less [of c] by simp
  then show ?thesis
    by (simp add: word_less_nat_alt)
qed

lemma chan_update_blocked_touch:
  "tjuge c = 255 \<Longrightarrow> \<not> is_touched c \<Longrightarrow> \<not> is_touched (chan_update fp r c)"
  by (simp add: chan_update_def flips_def confirm_count_def uint8_not_above_255)

lemma chan_update_blocked_release:
  "rjuge c = 255 \<Longrightarrow> is_touched c \<Longrightarrow> is_touched (chan_update fp r c)"
  by (simp add: chan_update_def flips_def confirm_count_def uint8_not_above_255)

lemma chan_updates_blocked_touch:
  "tjuge c = 255 \<Longrightarrow> \<not> is_touched c \<Longrightarrow> \<not> is_touched (chan_updates fp rs c)"
  unfolding chan_updates_def
  by (induction rs arbitrary: c) (simp_all add: chan_update_blocked_touch chan_update_keeps)

lemma chan_updates_blocked_release:
  "rjuge c = 255 \<Longrightarrow> is_touched c \<Longrightarrow> is_touched (chan_updates fp rs c)"
  unfolding chan_updates_def
  by (induction rs arbitrary: c) (simp_all add: chan_update_blocked_release chan_update_keeps)

lemma frame_updates:
  "activePort (updates fp fds s) = activePort s"
  unfolding updates_def by (induction fds arbitrary: s) (simp_all add: frame_update)

lemma isTouched_iff:
  "isTouched s port \<longleftrightarrow>
     unat port < maxPort \<and> active (chan s (unat port)) \<and> is_touched (chan s (unat port))"
  by (auto simp add: isTouched_def port_ok_iff chan_sel shifted_bit_iff)

lemma chan_updates_keeps:
  "active (chan_updates fp rs c) = active c"
  "lo (chan_updates fp rs c) = lo c"
  "hi (chan_updates fp rs c) = hi c"
  "tmargin (chan_updates fp rs c) = tmargin c"
  "rmargin (chan_updates fp rs c) = rmargin c"
  "tjuge (chan_updates fp rs c) = tjuge c"
  "rjuge (chan_updates fp rs c) = rjuge c"
  unfolding chan_updates_def
  by (induction rs arbitrary: c) (simp_all add: chan_update_keeps)

lemma isTouched_updates:
  "isTouched (updates fp fds s) port \<longleftrightarrow>
     unat port < maxPort \<and> active (chan s (unat port)) \<and>
     is_touched (chan_updates fp (map (\<lambda>fd. fd (unat port)) fds) (chan s (unat port)))"
  by (auto simp add: isTouched_iff chan_updates_state chan_updates_keeps)

lemma chan_setTouchJugeCount:
  "port_ok s port \<Longrightarrow>
   chan (setTouchJugeCount port n s) (unat port) = (chan s (unat port))\<lparr>tjuge := n\<rparr>"
  by (simp add: setTouchJugeCount_def chan_def)

lemma chan_setReleaseJugeCount:
  "port_ok s port \<Longrightarrow>
   chan (setReleaseJugeCount port n s) (unat port) = (chan s (unat port))\<lparr>rjuge := n\<rparr>"
  by (simp add: setReleaseJugeCount_def chan_def)

text \<open>
  C9. Once \<open>setTouchJugeCount\<close> has stored 255 for a port, no run of \<open>update\<close> calls
  takes the port from released to touched, because an 8-bit counter is never above 255
  (counting a cycle at 255 wraps it to 0); and once \<open>setReleaseJugeCount\<close> has stored
  255, no run of \<open>update\<close> calls takes the port from touched to released.
\<close>

theorem confirm_count_255_blocks:
  "(\<not> isTouched s port \<longrightarrow>
      \<not> isTouched (updates fp fds (setTouchJugeCount port 255 s)) port) \<and>
   (isTouched s port \<longrightarrow>
      isTouched (updates fp fds (setReleaseJugeCount port 255 s)) port) \<and>
   \<not> counted fp raw c > 255 \<and>
   (condition_met fp raw c \<and> cnt c = 255 \<longrightarrow> counted fp raw c = 0)"
proof (intro conjI impI)
  show "\<not> counted fp raw c > 255"
    by (rule uint8_not_above_255)
next
  assume "condition_met fp raw c \<and> cnt c = 255"
  then show "counted fp raw c = 0"
    by (simp add: counted_def)
next
  assume n: "\<not> isTouched s port"
  show "\<not> isTouched (updates fp fds (setTouchJugeCount port 255 s)) port"
  proof (cases "port_ok s port")
    case False
    then have "setTouchJugeCount port 255 s = s"
      by (simp add: setTouchJugeCount_def)
    moreover from False have "\<not> (unat port < maxPort \<and> active (chan s (unat port)))"
      by (simp add: port_ok_iff chan_sel shifted_bit_iff)
    ultimately show ?thesis
      by (auto simp add: isTouched_updates)
  next
    case True
    let ?c = "(chan s (unat port))\<lparr>tjuge := 255\<rparr>"
    from True n have "\<not> is_touched (chan s (unat port))"
      by (simp add: isTouched_iff port_ok_iff chan_sel shifted_bit_iff)
    then have "\<not> is_touched (chan_updates fp (map (\<lambda>fd. fd (unat port)) fds) ?c)"
      by (intro chan_updates_blocked_touch) simp_all
    then show ?thesis
      by (simp add: isTouched_updates chan_setTouchJugeCount [OF True])
  qed
next
  assume t: "isTouched s port"
  then have ok: "port_ok s port"
    by (simp add: isTouched_def split: if_splits)
  let ?c = "(chan s (unat port))\<lparr>rjuge := 255\<rparr>"
  from t have "is_touched (chan s (unat port))"
    by (simp add: isTouched_iff)
  then have "is_touched (chan_updates fp (map (\<lambda>fd. fd (unat port)) fds) ?c)"
    by (intro chan_updates_blocked_release) simp_all
  moreover from t have "unat port < maxPort \<and> active (chan s (unat port))"
    by (simp add: isTouched_iff)
  ultimately show "isTouched (updates fp fds (setReleaseJugeCount port 255 s)) port"
    by (simp add: isTouched_updates chan_setReleaseJugeCount [OF ok])
qed

lemma touched_demo_chan0:
  "chan touched_demo 0 = \<lparr> active = True, val = 600, lo = 600, hi = 710, is_touched = True, cnt = 0,
      thr = 620, tmargin = 30, rmargin = 20, tjuge = 0, rjuge = 15 \<rparr>"
proof -
  have ok: "port_ok demo 0"
    by (simp add: port_ok_iff maxPort_def demo_frame)
  have "chan (setTouchJugeCount 0 0 demo) (unat (0 :: uint8_t)) = (chan demo (unat (0 :: uint8_t)))\<lparr>tjuge := 0\<rparr>"
    by (rule chan_setTouchJugeCount [OF ok])
  then have "chan (setTouchJugeCount 0 0 demo) 0 = (chan demo 0)\<lparr>tjuge := 0\<rparr>"
    by simp
  then show ?thesis
    by (simp add: touched_demo_def chan_update_state maxPort_def demo_chan0 chan_update_def
        flips_def counted_def condition_met_def smoothed_def confirm_count_def
        flipped_threshold_def constrain_def exact_ops_def to_float_def)
qed

lemma isTouched_demo: "\<not> isTouched demo 0" "isTouched touched_demo 0"
  by (simp_all add: isTouched_iff demo_chan0 touched_demo_chan0 maxPort_def)

theorem confirm_count_255_blocks_witness:
  "\<not> isTouched demo 0 \<and>
   \<not> isTouched (updates exact_ops (replicate 300 (\<lambda>_. 0)) (setTouchJugeCount 0 255 demo)) 0 \<and>
   isTouched touched_demo 0 \<and>
   isTouched (updates exact_ops (replicate 300 (\<lambda>_. 1000)) (setReleaseJugeCount 0 255 touched_demo)) 0"
  using confirm_count_255_blocks [of demo 0 exact_ops "replicate 300 (\<lambda>_. 0)"]
    confirm_count_255_blocks [of touched_demo 0 exact_ops "replicate 300 (\<lambda>_. 1000)"]
    isTouched_demo
  by blast

section \<open>Ports outside the active mask\<close>

lemma chan_rearm_state:
  "chan (rearm fp p s) i = (if i = p then chan_rearm fp (chan s i) else chan s i)"
  by (simp add: rearm_def chan_rearm_def chan_def Let_def)

lemma chan_perform_state:
  "chan (perform fp cl s) i = chan_perform fp cl i (chan s i)"
proof (cases cl)
  case (Update fd)
  then show ?thesis by (simp add: chan_update_state)
next
  case (SetTouchMargin port margin)
  then show ?thesis
    by (simp add: setTouchMargin_def port_ok_iff chan_rearm_state chan_sel shifted_bit_iff)
      (auto simp add: chan_def)
next
  case (SetReleaseMargin port margin)
  then show ?thesis
    by (simp add: setReleaseMargin_def port_ok_iff chan_rearm_state chan_sel shifted_bit_iff)
      (auto simp add: chan_def)
next
  case (SetSensorMinValue port v)
  then show ?thesis
    by (auto simp add: setSensorMinValue_def port_ok_iff chan_def shifted_bit_iff)
next
  case (SetSensorMaxValue port v)
  then show ?thesis
    by (auto simp add: setSensorMaxValue_def port_ok_iff chan_def shifted_bit_iff)
next
  case (SetTouchJugeCount port n)
  then show ?thesis
    by (auto simp add: setTouchJugeCount_def port_ok_iff chan_def shifted_bit_iff)
next
  case (SetReleaseJugeCount port n)
  then show ?thesis
    by (auto simp add: setReleaseJugeCount_def port_ok_iff chan_def shifted_bit_iff)
qed

lemma chan_perform_inactive:
  "\<not> (i < maxPort \<and> active c) \<Longrightarrow> chan_perform fp cl i c = c"
  by (cases cl) (auto simp add: chan_update_def)

lemma frame_perform: "activePort (perform fp cl s) = activePort s"
  by (cases cl)
    (simp_all add: frame_update setTouchMargin_def setReleaseMargin_def rearm_def Let_def
      setSensorMinValue_def setSensorMaxValue_def setTouchJugeCount_def setReleaseJugeCount_def)

lemma chan_run_inactive:
  "\<not> (i < maxPort \<and> bit (activePort s) i) \<Longrightarrow> chan (run fp calls s) i = chan s i"
  unfolding run_def
proof (induction calls arbitrary: s)
  case Nil
  then show ?case by simp
next
  case (Cons cl calls)
  from Cons.prems have "chan (perform fp cl s) i = chan s i"
    by (simp add: chan_perform_state chan_perform_inactive chan_sel shifted_bit_iff)
  moreover from Cons.prems have "\<not> (i < maxPort \<and> bit (activePort (perform fp cl s)) i)"
    by (simp add: frame_perform)
  ultimately show ?case
    using Cons.IH [of "perform fp cl s"] by simp
qed

text \<open>
  C8. A port that is not active (its bit is clear, or it is not below \<open>maxPort\<close>) is left
  alone by every call after construction. \<open>update\<close> and the six setters leave all of
  \<open>chan s i\<close> as it was: the smoothed value, both bounds, both margins, both confirm
  counts, the counter, the threshold and the touch bit. In every state reached from the
  constructor by any calls, the port still holds what the object's memory held before
  construction and its touch bit is 0. No call reads it either: what a call leaves in
  \<open>chan s i\<close> depends on \<open>chan s i\<close> alone, for every port \<open>i\<close>.
\<close>

theorem inactive_port_untouched:
  "(\<not> (i < maxPort \<and> bit (activePort s) i) \<longrightarrow>
      chan (perform fp cl s) i = chan s i \<and> activePort (perform fp cl s) = activePort s) \<and>
   (\<not> (i < maxPort \<and> bit usedPortMask i) \<longrightarrow>
      chan (run fp calls (MPR121Manager fp mem setAddress usedPortMask fd)) i =
        (chan mem i)\<lparr>active := bit usedPortMask i, is_touched := False\<rparr> \<and>
      \<not> bit (currentTouched (run fp calls (MPR121Manager fp mem setAddress usedPortMask fd))) i) \<and>
   (chan s i = chan t i \<longrightarrow> chan (perform fp cl s) i = chan (perform fp cl t) i)"
proof (intro conjI impI)
  assume "\<not> (i < maxPort \<and> bit (activePort s) i)"
  then show "chan (perform fp cl s) i = chan s i"
    by (simp add: chan_perform_state chan_perform_inactive chan_sel shifted_bit_iff)
next
  show "activePort (perform fp cl s) = activePort s"
    by (rule frame_perform)
next
  assume a: "\<not> (i < maxPort \<and> bit usedPortMask i)"
  let ?s0 = "MPR121Manager fp mem setAddress usedPortMask fd"
  from a have "\<not> (i < maxPort \<and> bit (activePort ?s0) i)"
    by (simp add: frame_MPR121Manager)
  then have "chan (run fp calls ?s0) i = chan ?s0 i"
    by (rule chan_run_inactive)
  also from a have "chan ?s0 i = (chan mem i)\<lparr>active := bit usedPortMask i, is_touched := False\<rparr>"
    by (auto simp add: chan_MPR121Manager shifted_bit_iff)
  finally show r: "chan (run fp calls ?s0) i =
      (chan mem i)\<lparr>active := bit usedPortMask i, is_touched := False\<rparr>" .
  have "is_touched (chan (run fp calls ?s0) i) = False"
    by (simp only: r) simp
  then show "\<not> bit (currentTouched (run fp calls ?s0)) i"
    by (simp add: chan_sel shifted_bit_iff)
next
  assume "chan s i = chan t i"
  then show "chan (perform fp cl s) i = chan (perform fp cl t) i"
    by (simp add: chan_perform_state)
qed

lemma demo_other_port: "chan demo 0 = chan (setSensorMinValue 1 500 demo) 0"
  by (simp add: setSensorMinValue_def chan_def)

theorem inactive_port_untouched_witness:
  "\<not> ((5 :: nat) < maxPort \<and> bit (activePort demo) (5 :: nat)) \<and>
   chan (perform exact_ops (Update (\<lambda>_. 0)) demo) 5 = chan demo 5 \<and>
   \<not> ((5 :: nat) < maxPort \<and> bit (3 :: uint16_t) (5 :: nat)) \<and>
   chan (run exact_ops [Update (\<lambda>_. 0), SetTouchMargin 5 40, SetSensorMinValue 5 500, Update (\<lambda>_. 700)]
          (MPR121Manager exact_ops zero_mem 0x5A 3 (\<lambda>_. 650))) 5 =
     (chan zero_mem 5)\<lparr>active := bit (3 :: uint16_t) (5 :: nat), is_touched := False\<rparr> \<and>
   \<not> bit (currentTouched
          (run exact_ops [Update (\<lambda>_. 0), SetTouchMargin 5 40, SetSensorMinValue 5 500, Update (\<lambda>_. 700)]
            (MPR121Manager exact_ops zero_mem 0x5A 3 (\<lambda>_. 650)))) (5 :: nat) \<and>
   chan demo 0 = chan (setSensorMinValue 1 500 demo) 0 \<and>
   chan (perform exact_ops (Update (\<lambda>_. 0)) demo) 0 =
     chan (perform exact_ops (Update (\<lambda>_. 0)) (setSensorMinValue 1 500 demo)) 0"
proof -
  have a: "\<not> ((5 :: nat) < maxPort \<and> bit (activePort demo) (5 :: nat))"
    by (simp add: demo_frame)
  have b: "\<not> ((5 :: nat) < maxPort \<and> bit (3 :: uint16_t) (5 :: nat))"
    by simp
  show ?thesis
    using inactive_port_untouched [of 5 demo exact_ops "Update (\<lambda>_. 0)" 3
        "[Update (\<lambda>_. 0), SetTouchMargin 5 40, SetSensorMinValue 5 500, Update (\<lambda>_. 700)]"
        zero_mem "0x5A" "\<lambda>_. 650" demo]
      inactive_port_untouched [of 0 demo exact_ops "Update (\<lambda>_. 0)" 3 "[]"
        zero_mem "0x5A" "\<lambda>_. 650" "setSensorMinValue 1 500 demo"]
      a b demo_other_port
    by blast
qed

section \<open>The debounce step\<close>

lemma unat_counted_le:
  "unat (counted fp r c) \<le> (if condition_met fp r c then unat (cnt c) + 1 else 0)"
  by (simp add: counted_def unat_word_ariths)

lemma no_flip_below:
  assumes "unat (counted fp r c) \<le> unat (confirm_count c)"
  shows "\<not> flips fp r c"
  using assms by (simp add: flips_def word_less_nat_alt)

lemma chan_update_no_flip:
  assumes "\<not> flips fp r c"
  shows "is_touched (chan_update fp r c) = is_touched c"
    and "confirm_count (chan_update fp r c) = confirm_count c"
    and "active c \<Longrightarrow> cnt (chan_update fp r c) = counted fp r c"
  using assms by (simp_all add: chan_update_def confirm_count_def)

lemma chan_updates_inactive:
  "\<not> active c \<Longrightarrow> chan_updates fp rs c = c"
  unfolding chan_updates_def
  by (induction rs) (simp_all add: chan_update_def)

lemma sustained_no_flip:
  assumes "active c"
    and "sustained_at_most (unat (confirm_count c)) n (met_trace fp rs c)"
    and "unat (cnt c) \<le> n"
  shows "is_touched (chan_updates fp rs c) = is_touched c"
  using assms
proof (induction rs arbitrary: c n)
  case Nil
  then show ?case by (simp add: chan_updates_def)
next
  case (Cons r rs)
  let ?c = "chan_update fp r c"
  let ?N = "unat (confirm_count c)"
  let ?n = "if condition_met fp r c then n + 1 else 0"
  from Cons.prems(2) have le: "?n \<le> ?N"
    by (simp split: if_splits)
  from Cons.prems(2) have rest: "sustained_at_most ?N ?n (met_trace fp rs ?c)"
    by (simp split: if_splits)
  have cle: "unat (counted fp r c) \<le> ?n"
    using unat_counted_le [of fp r c] Cons.prems(3) by (simp split: if_splits)
  with le have nf: "\<not> flips fp r c"
    by (intro no_flip_below) simp
  have a: "active ?c"
    using Cons.prems(1) by (simp add: chan_update_keeps)
  have "is_touched (chan_updates fp rs ?c) = is_touched ?c"
  proof (rule Cons.IH [OF a, of ?n])
    show "sustained_at_most (unat (confirm_count ?c)) ?n (met_trace fp rs ?c)"
      using rest by (simp only: chan_update_no_flip(2) [OF nf])
    show "unat (cnt ?c) \<le> ?n"
      using cle by (simp only: chan_update_no_flip(3) [OF nf Cons.prems(1)])
  qed
  then show ?case
    by (simp add: chan_updates_def chan_update_no_flip(1) [OF nf])
qed

lemma met_trace_take: "met_trace fp (take k rs) c = take k (met_trace fp rs c)"
proof (induction rs arbitrary: k c)
  case Nil
  then show ?case by simp
next
  case (Cons r rs)
  then show ?case by (cases k) simp_all
qed

lemma sustained_take:
  "sustained_at_most N n bs \<Longrightarrow> sustained_at_most N n (take k bs)"
proof (induction bs arbitrary: k n)
  case Nil
  then show ?case by simp
next
  case (Cons b bs)
  then show ?case by (cases k) (simp_all split: if_splits)
qed

lemma chan_update_flip_fields:
  assumes "active c"
  shows "val (chan_update fp r c) = smoothed fp r c"
    and "is_touched (chan_update fp r c) = (is_touched c \<noteq> flips fp r c)"
    and "cnt (chan_update fp r c) = (if flips fp r c then 0 else counted fp r c)"
    and "thr (chan_update fp r c) = (if flips fp r c then flipped_threshold fp r c else thr c)"
  using assms by (simp_all add: chan_update_def)

text \<open>
  C3. In one \<open>update\<close> of an active port the flip condition is: smoothed value above
  the threshold when the port is touched, below it when released (both strictly). The
  8-bit counter is incremented when the condition holds and set to 0 otherwise. The state
  flips exactly when the counter is then strictly above the confirm count of the current
  state (\<open>releaseJuge\<close> when touched, \<open>touchJuge\<close> when released); a flip sets the
  counter to 0 and the threshold to the smoothed value minus the touch margin when the
  port has just been released, plus the release margin when it has just been touched;
  without a flip the threshold stays. Hence a run of cycles that never sustains the
  condition for more than the confirm count of consecutive cycles (the cycles already
  counted included) flips the state at no point of the run.
\<close>
theorem debounce_step:
  assumes "i < maxPort" and "bit (activePort s) i"
  shows "(let c = chan s i; s' = update fp fd s; raw = fd i in
            value s' i = smoothed fp raw c \<and>
            condition_met fp raw c =
              (if bit (currentTouched s) i then value s' i > threshold s i
               else value s' i < threshold s i) \<and>
            counted fp raw c = (if condition_met fp raw c then counter s i + 1 else 0) \<and>
            flips fp raw c =
              (counted fp raw c > (if bit (currentTouched s) i then releaseJuge s i else touchJuge s i)) \<and>
            bit (currentTouched s') i = (bit (currentTouched s) i \<noteq> flips fp raw c) \<and>
            counter s' i = (if flips fp raw c then 0 else counted fp raw c) \<and>
            threshold s' i =
              (if flips fp raw c
               then (if bit (currentTouched s) i
                     then fsub fp (value s' i) (to_float (touchMargin s i))
                     else fadd fp (value s' i) (to_float (releaseMargin s i)))
               else threshold s i)) \<and>
         (sustained_at_most (unat (confirm_count (chan s i))) (unat (counter s i))
            (met_trace fp (map (\<lambda>fd. fd i) fds) (chan s i)) \<longrightarrow>
          (\<forall>k\<le>length fds.
             bit (currentTouched (updates fp (take k fds) s)) i = bit (currentTouched s) i))"
proof (intro conjI impI allI)
  let ?c = "chan s i"
  have a: "active ?c"
    using assms(2) by (simp add: chan_sel shifted_bit_iff)
  have v: "value (update fp fd s) i = smoothed fp (fd i) ?c"
    using assms(1) a by (simp add: update_port_fields chan_update_flip_fields)
  have t: "bit (currentTouched (update fp fd s)) i = (bit (currentTouched s) i \<noteq> flips fp (fd i) ?c)"
    using update_port_fields(6) [OF assms(1), of fp fd s] a
    by (simp add: chan_update_flip_fields chan_sel shifted_bit_iff)
  have n: "counter (update fp fd s) i = (if flips fp (fd i) ?c then 0 else counted fp (fd i) ?c)"
    using assms(1) a by (simp add: update_port_fields chan_update_flip_fields)
  have h: "threshold (update fp fd s) i =
      (if flips fp (fd i) ?c then flipped_threshold fp (fd i) ?c else threshold s i)"
    using assms(1) a by (simp add: update_port_fields chan_update_flip_fields chan_sel)
  show "let c = chan s i; s' = update fp fd s; raw = fd i in
            value s' i = smoothed fp raw c \<and>
            condition_met fp raw c =
              (if bit (currentTouched s) i then value s' i > threshold s i
               else value s' i < threshold s i) \<and>
            counted fp raw c = (if condition_met fp raw c then counter s i + 1 else 0) \<and>
            flips fp raw c =
              (counted fp raw c > (if bit (currentTouched s) i then releaseJuge s i else touchJuge s i)) \<and>
            bit (currentTouched s') i = (bit (currentTouched s) i \<noteq> flips fp raw c) \<and>
            counter s' i = (if flips fp raw c then 0 else counted fp raw c) \<and>
            threshold s' i =
              (if flips fp raw c
               then (if bit (currentTouched s) i
                     then fsub fp (value s' i) (to_float (touchMargin s i))
                     else fadd fp (value s' i) (to_float (releaseMargin s i)))
               else threshold s i)"
    unfolding Let_def v t n h
    by (simp add: condition_met_def counted_def flips_def confirm_count_def flipped_threshold_def
        chan_sel shifted_bit_iff)
next
  fix k
  assume su: "sustained_at_most (unat (confirm_count (chan s i))) (unat (counter s i))
            (met_trace fp (map (\<lambda>fd. fd i) fds) (chan s i))"
  assume "k \<le> length fds"
  let ?c = "chan s i"
  let ?rs = "map (\<lambda>fd. fd i) (take k fds)"
  have a: "active ?c"
    using assms(2) by (simp add: chan_sel shifted_bit_iff)
  have "sustained_at_most (unat (confirm_count ?c)) (unat (counter s i)) (met_trace fp ?rs ?c)"
    using sustained_take [OF su, of k] by (simp add: met_trace_take flip: take_map)
  moreover have "unat (cnt ?c) \<le> unat (counter s i)"
    by (simp add: chan_sel)
  ultimately have "is_touched (chan_updates fp ?rs ?c) = is_touched ?c"
    by (rule sustained_no_flip [OF a])
  moreover have "chan (updates fp (take k fds) s) i = chan_updates fp ?rs ?c"
    using assms(1) by (simp add: chan_updates_state)
  ultimately have "is_touched (chan (updates fp (take k fds) s) i) = is_touched ?c"
    by simp
  then show "bit (currentTouched (updates fp (take k fds) s)) i = bit (currentTouched s) i"
    by (simp add: chan_sel shifted_bit_iff)
qed

lemmas chan_step_defs =
  chan_update_def flips_def counted_def condition_met_def smoothed_def confirm_count_def
  flipped_threshold_def constrain_def exact_ops_def to_float_def

lemma quick_demo_chan0:
  "chan quick_demo 0 = \<lparr> active = True, val = 650, lo = 600, hi = 710, is_touched = False, cnt = 0,
      thr = 620, tmargin = 30, rmargin = 20, tjuge = 2, rjuge = 15 \<rparr>"
proof -
  have ok: "port_ok demo 0"
    by (simp add: port_ok_iff maxPort_def demo_frame)
  have "chan (setTouchJugeCount 0 2 demo) (unat (0 :: uint8_t)) = (chan demo (unat (0 :: uint8_t)))\<lparr>tjuge := 2\<rparr>"
    by (rule chan_setTouchJugeCount [OF ok])
  then show ?thesis
    by (simp add: quick_demo_def demo_chan0)
qed

lemma quick_demo_frame: "activePort quick_demo = 3" "currentTouched quick_demo = 0"
  by (simp_all add: quick_demo_def setTouchJugeCount_def demo_frame)

lemma quick_demo_port0:
  "value quick_demo 0 = 650" "counter quick_demo 0 = 0" "threshold quick_demo 0 = 620"
  "touchMargin quick_demo 0 = 30" "releaseMargin quick_demo 0 = 20"
  "touchJuge quick_demo 0 = 2" "releaseJuge quick_demo 0 = 15"
  using quick_demo_chan0 by (simp_all add: chan_def)

lemma noisy_sustained:
  "sustained_at_most (unat (confirm_count (chan quick_demo 0))) (unat (counter quick_demo 0))
     (met_trace exact_ops (map (\<lambda>fd. fd 0) noisy) (chan quick_demo 0))"
  unfolding noisy_def quick_demo_chan0 quick_demo_port0
  by (simp add: chan_step_defs)

theorem debounce_step_witness:
  "(0::nat) < maxPort \<and> bit (activePort quick_demo) (0::nat) \<and>
   value (update exact_ops (\<lambda>_. 0) quick_demo) 0 = 600 \<and>
   condition_met exact_ops 0 (chan quick_demo 0) \<and>
   counted exact_ops 0 (chan quick_demo 0) = 1 \<and>
   \<not> flips exact_ops 0 (chan quick_demo 0) \<and>
   \<not> bit (currentTouched (update exact_ops (\<lambda>_. 0) quick_demo)) (0::nat) \<and>
   counter (update exact_ops (\<lambda>_. 0) quick_demo) 0 = 1 \<and>
   threshold (update exact_ops (\<lambda>_. 0) quick_demo) 0 = 620 \<and>
   sustained_at_most (unat (confirm_count (chan quick_demo 0))) (unat (counter quick_demo 0))
     (met_trace exact_ops (map (\<lambda>fd. fd 0) noisy) (chan quick_demo 0)) \<and>
   (6 :: nat) \<le> length noisy \<and>
   bit (currentTouched (updates exact_ops (take 6 noisy) quick_demo)) (0::nat) =
     bit (currentTouched quick_demo) (0::nat)"
proof -
  have m: "(0::nat) < maxPort" by (simp add: maxPort_def)
  have h: "bit (activePort quick_demo) (0::nat)" by (simp add: quick_demo_frame)
  have l: "(6 :: nat) \<le> length noisy" by (simp add: noisy_def)
  have c: "condition_met exact_ops 0 (chan quick_demo 0)"
    "counted exact_ops 0 (chan quick_demo 0) = 1"
    "\<not> flips exact_ops 0 (chan quick_demo 0)"
    "smoothed exact_ops 0 (chan quick_demo 0) = 600"
    unfolding quick_demo_chan0 by (simp_all add: chan_step_defs)
  note t = debounce_step [OF m h, of exact_ops "\<lambda>_. 0" noisy]
  from t have step: "value (update exact_ops (\<lambda>_. 0) quick_demo) 0 = 600 \<and>
      \<not> bit (currentTouched (update exact_ops (\<lambda>_. 0) quick_demo)) (0::nat) \<and>
      counter (update exact_ops (\<lambda>_. 0) quick_demo) 0 = 1 \<and>
      threshold (update exact_ops (\<lambda>_. 0) quick_demo) 0 = 620"
    by (simp add: Let_def c quick_demo_port0 quick_demo_frame)
  from t noisy_sustained have a: "\<forall>k\<le>length noisy.
      bit (currentTouched (updates exact_ops (take k noisy) quick_demo)) (0::nat) =
      bit (currentTouched quick_demo) (0::nat)"
    by (rule conjunct2 [THEN mp])
  have "bit (currentTouched (updates exact_ops (take 6 noisy) quick_demo)) (0::nat) =
      bit (currentTouched quick_demo) (0::nat)"
    using a l by blast
  then show ?thesis
    using m h c(1-3) step noisy_sustained l by blast
qed

section \<open>A released port whose threshold is not above its lower bound\<close>

lemma smoothed_ge_lo: "lo c \<le> hi c \<Longrightarrow> to_float (lo c) \<le> smoothed fp r c"
  by (simp add: smoothed_def constrain_bounds)

lemma chan_update_stays_released:
  assumes "\<not> is_touched c" and "thr c \<le> to_float (lo c)" and "lo c \<le> hi c"
  shows "\<not> is_touched (chan_update fp r c) \<and> thr (chan_update fp r c) = thr c"
proof -
  have "\<not> condition_met fp r c"
    using assms smoothed_ge_lo [of c fp r] by (simp add: condition_met_def)
  then have "\<not> flips fp r c"
    by (simp add: flips_def counted_def)
  then show ?thesis
    using assms(1) by (simp add: chan_update_def)
qed

lemma chan_updates_stay_released:
  assumes "\<not> is_touched c" and "thr c \<le> to_float (lo c)" and "lo c \<le> hi c"
  shows "\<not> is_touched (chan_updates fp rs c)"
  using assms unfolding chan_updates_def
proof (induction rs arbitrary: c)
  case Nil
  then show ?case by simp
next
  case (Cons r rs)
  have "\<not> is_touched (fold (chan_update fp) rs (chan_update fp r c))"
  proof (rule Cons.IH)
    show "\<not> is_touched (chan_update fp r c)"
      using chan_update_stays_released [OF Cons.prems] by simp
    show "thr (chan_update fp r c) \<le> to_float (lo (chan_update fp r c))"
      using chan_update_stays_released [OF Cons.prems, of fp r] Cons.prems(2)
      by (simp add: chan_update_keeps)
    show "lo (chan_update fp r c) \<le> hi (chan_update fp r c)"
      using Cons.prems(3) by (simp add: chan_update_keeps)
  qed
  then show ?case by simp
qed

lemma constructed_inactive_5:
  "\<not> isTouched (updates fp fds (MPR121Manager fp mem a 3 fd)) 5"
  by (simp add: isTouched_updates chan_MPR121Manager shifted_bit_iff)

section \<open>Runs of one port\<close>

lemma unat_cnt_succ: "unat (c :: uint8_t) < 255 \<Longrightarrow> unat (c + 1) = unat c + 1"
  by (simp add: unat_word_ariths)

lemma chan_updates_Cons: "chan_updates fp (r # rs) c = chan_updates fp rs (chan_update fp r c)"
  by (simp add: chan_updates_def)

lemma chan_updates_append:
  "chan_updates fp (rs @ rs') c = chan_updates fp rs' (chan_updates fp rs c)"
  by (simp add: chan_updates_def)

lemma chan_updates_Nil: "chan_updates fp [] c = c"
  by (simp add: chan_updates_def)

lemma constant_map:
  "\<forall>fd\<in>set fds. fd p = r \<Longrightarrow> map (\<lambda>fd. fd p) fds = replicate (length fds) r"
  by (induction fds) simp_all

lemma sustained_short: "n + length bs \<le> N \<Longrightarrow> sustained_at_most N n bs"
  by (induction bs arbitrary: n) simp_all

lemma length_met_trace: "length (met_trace fp rs c) = length rs"
  by (induction rs arbitrary: c) simp_all

lemma chan_init_bounds:
  "600 \<le> val (chan_init fp raw)" "val (chan_init fp raw) \<le> 710"
  using constrain_bounds [of 600 710 "to_float raw"] by (simp_all add: chan_init_def)

lemma not_before_confirm:
  assumes "length rs < 16"
  shows "\<not> is_touched (chan_updates fp rs (chan_init fp raw))"
proof -
  let ?c = "chan_init fp raw"
  have c: "active ?c" "unat (confirm_count ?c) = 15" "unat (cnt ?c) = 0" "\<not> is_touched ?c"
    by (simp_all add: chan_init_def confirm_count_def)
  have "0 + length (met_trace fp rs ?c) \<le> unat (confirm_count ?c)"
    using assms by (simp add: length_met_trace c(2))
  then have "sustained_at_most (unat (confirm_count ?c)) 0 (met_trace fp rs ?c)"
    by (rule sustained_short)
  moreover have "unat (cnt ?c) \<le> 0"
    by (simp add: c(3))
  ultimately have "is_touched (chan_updates fp rs ?c) = is_touched ?c"
    by (rule sustained_no_flip [OF c(1)])
  then show ?thesis
    using c(4) by simp
qed

lemma late_start:
  assumes "active c" and "\<not> is_touched c" and "\<not> condition_met fp r c"
    and "length rs \<le> unat (confirm_count c)"
  shows "\<not> is_touched (chan_updates fp (r # rs) c)"
proof -
  have "0 + length (met_trace fp rs (chan_update fp r c)) \<le> unat (confirm_count c)"
    using assms(4) by (simp add: length_met_trace)
  then have "sustained_at_most (unat (confirm_count c)) 0 (met_trace fp rs (chan_update fp r c))"
    by (rule sustained_short)
  then have "sustained_at_most (unat (confirm_count c)) (unat (cnt c)) (met_trace fp (r # rs) c)"
    using assms(3) by simp
  moreover have "unat (cnt c) \<le> unat (cnt c)"
    by simp
  ultimately have "is_touched (chan_updates fp (r # rs) c) = is_touched c"
    by (rule sustained_no_flip [OF assms(1)])
  then show ?thesis
    using assms(2) by simp
qed

lemma replicate_16: "replicate 16 x = x # replicate 15 x"
proof -
  have "(16 :: nat) = Suc 15" by simp
  then show ?thesis by (simp only: replicate_Suc)
qed

lemma replicate_16_snoc: "replicate 16 x = replicate 15 x @ [x]"
proof -
  have "(16 :: nat) = Suc 15" by simp
  then show ?thesis by (simp only: replicate_Suc replicate_append_same)
qed

section \<open>A constant stream below the threshold\<close>

lemma accurateD:
  assumes "accurate fp" and "0 \<le> a" and "a \<le> 1024" and "0 \<le> b" and "b \<le> 1024"
  shows "\<bar>smooth fp a b - (0.6 * a + 0.4 * b)\<bar> \<le> 1 / 10"
    and "\<bar>fsub fp a b - (a - b)\<bar> \<le> 1 / 10"
    and "\<bar>fadd fp a b - (a + b)\<bar> \<le> 1 / 10"
  using assms by (simp_all add: accurate_def)

lemma to_float_nonneg: "0 \<le> to_float w"
  unfolding to_float_def by (rule of_nat_0_le_iff)

lemma to_float_gap:
  assumes "to_float a < to_float b - 50"
  shows "to_float a + 51 \<le> to_float b"
proof -
  from assms have "real (unat a + 50) < real (unat b)"
    by (simp add: to_float_def)
  then have "unat a + 50 < unat b"
    by (simp only: of_nat_less_iff)
  then have "unat a + 51 \<le> unat b"
    by simp
  then have "real (unat a + 51) \<le> real (unat b)"
    by (simp only: of_nat_le_iff)
  then show ?thesis
    by (simp add: to_float_def)
qed

lemma to_float_above_630:
  assumes "630 < to_float b"
  shows "631 \<le> to_float b"
proof -
  from assms have "real 630 < real (unat b)"
    by (simp add: to_float_def)
  then have "630 < unat b"
    by (simp only: of_nat_less_iff)
  then have "631 \<le> unat b"
    by simp
  then have "real 631 \<le> real (unat b)"
    by (simp only: of_nat_le_iff)
  then show ?thesis
    by (simp add: to_float_def)
qed

lemma constrain_to_float: "\<exists>w. constrain (to_float raw) 600 710 = to_float w"
  unfolding constrain_def by (metis (full_types))

lemma counting_smoothed:
  assumes acc: "accurate fp" and c: "counting fp v0 r k c" and k: "k \<le> 15"
    and v0: "631 \<le> v0" "v0 \<le> 710" and r: "to_float r + 51 \<le> v0"
  shows "smoothed fp r c < thr c"
    and "600 \<le> smoothed fp r c"
    and "smoothed fp r c \<le> v0"
    and "to_float r - 1 / 5 \<le> smoothed fp r c"
    and "smoothed fp r c \<le> max 600 (6 / 10 * to_float r + 4 / 10 * v0 + 1 / 10)"
    and "condition_met fp r c"
    and "unat (counted fp r c) = Suc k"
proof -
  let ?R = "to_float r"
  let ?x = "smooth fp ?R (val c)"
  from c have f: "active c" "lo c = 600" "hi c = 710" "\<not> is_touched c" "unat (cnt c) = k"
    "thr c = fsub fp v0 30" "600 \<le> val c" "val c \<le> v0" "?R - 1 / 5 \<le> val c"
    by (simp_all add: counting_def)
  have R: "0 \<le> ?R" "?R \<le> 1024"
    using to_float_nonneg [of r] r v0 by linarith+
  have V: "0 \<le> val c" "val c \<le> 1024"
    using f(7,8) v0 by linarith+
  have sm: "\<bar>?x - (0.6 * ?R + 0.4 * val c)\<bar> \<le> 1 / 10"
    by (rule accurateD(1) [OF acc R V])
  have "\<bar>fsub fp v0 30 - (v0 - 30)\<bar> \<le> 1 / 10"
    using v0 by (intro accurateD(2) [OF acc]) simp_all
  then have th: "v0 - 30 - 1 / 10 \<le> thr c"
    unfolding f(6) by linarith
  have x: "?x \<le> 6 / 10 * ?R + 4 / 10 * v0 + 1 / 10" "?R - 1 / 5 \<le> ?x"
    using sm f(8,9) by linarith+
  have xle: "\<not> 710 < ?x"
    using x(1) r v0 by linarith
  have s: "smoothed fp r c = (if ?x < 600 then 600 else ?x)"
    unfolding smoothed_def constrain_def f(2,3) using xle by (simp add: to_float_def)
  show sb: "smoothed fp r c < thr c" "600 \<le> smoothed fp r c"
    "smoothed fp r c \<le> v0" "?R - 1 / 5 \<le> smoothed fp r c"
    using x th r v0 by (simp_all add: s)
  show "smoothed fp r c \<le> max 600 (6 / 10 * to_float r + 4 / 10 * v0 + 1 / 10)"
    using x(1) by (simp add: s max_def)
  show m: "condition_met fp r c"
    using sb(1) f(4) by (simp add: condition_met_def)
  show "unat (counted fp r c) = Suc k"
    using m f(5) k by (simp add: counted_def unat_cnt_succ)
qed

lemma counting_step:
  assumes acc: "accurate fp" and c: "counting fp v0 r k c" and k: "k < 15"
    and v0: "631 \<le> v0" "v0 \<le> 710" and r: "to_float r + 51 \<le> v0"
  shows "counting fp v0 r (Suc k) (chan_update fp r c)"
proof -
  have k': "k \<le> 15"
    using k by simp
  note s = counting_smoothed [OF acc c k' v0 r]
  from c have f: "active c" "lo c = 600" "hi c = 710" "\<not> is_touched c"
    "thr c = fsub fp v0 30" "tjuge c = 15" "rjuge c = 15" "rmargin c = 20"
    by (simp_all add: counting_def)
  have nf: "\<not> flips fp r c"
    using s(7) k f(4,6) by (simp add: flips_def confirm_count_def word_less_nat_alt)
  show ?thesis
    using f s(2,3,4,7) nf by (simp add: counting_def chan_update_def)
qed

lemma counting_flip:
  assumes acc: "accurate fp" and c: "counting fp v0 r 15 c"
    and v0: "631 \<le> v0" "v0 \<le> 710" and r: "to_float r + 51 \<le> v0"
  shows "holding r (max (smoothed fp r c) (max 600 (to_float r) + 1 / 5)) (chan_update fp r c)"
    and "val (chan_update fp r c) \<le> max 600 (6 / 10 * to_float r + 4 / 10 * v0 + 1 / 10)"
    and "thr (chan_update fp r c) \<le> val (chan_update fp r c) + 20 + 1 / 10"
proof -
  let ?s = "smoothed fp r c"
  note s = counting_smoothed [OF acc c order_refl v0 r]
  from c have f: "active c" "lo c = 600" "hi c = 710" "\<not> is_touched c"
    "tjuge c = 15" "rjuge c = 15" "rmargin c = 20"
    by (simp_all add: counting_def)
  have fl: "flips fp r c"
    using s(7) f(4,5) by (simp add: flips_def confirm_count_def word_less_nat_alt)
  have t: "flipped_threshold fp r c = fadd fp ?s 20"
    using f(4,7) by (simp add: flipped_threshold_def)
  have "\<bar>fadd fp ?s 20 - (?s + 20)\<bar> \<le> 1 / 10"
    using s(2,3) v0 by (intro accurateD(3) [OF acc]) simp_all
  then have tb: "?s + 20 - 1 / 10 \<le> flipped_threshold fp r c"
    "flipped_threshold fp r c \<le> ?s + 20 + 1 / 10"
    unfolding t by linarith+
  have u: "chan_update fp r c =
      c\<lparr>val := ?s, is_touched := True, cnt := 0, thr := flipped_threshold fp r c\<rparr>"
    using f(1,4) fl by (simp add: chan_update_def)
  show "holding r (max ?s (max 600 (to_float r) + 1 / 5)) (chan_update fp r c)"
    unfolding u using f s(2,3,4) v0 tb(1) by (simp add: holding_def max_def)
  show "val (chan_update fp r c) \<le> max 600 (6 / 10 * to_float r + 4 / 10 * v0 + 1 / 10)"
    unfolding u using s(5) by simp
  show "thr (chan_update fp r c) \<le> val (chan_update fp r c) + 20 + 1 / 10"
    unfolding u using tb(2) by simp
qed

lemma holding_step:
  assumes acc: "accurate fp" and c: "holding r K c" and r: "to_float r \<le> 1024"
  shows "holding r K (chan_update fp r c)"
proof -
  let ?R = "to_float r"
  let ?x = "smooth fp ?R (val c)"
  from c have f: "active c" "lo c = 600" "hi c = 710" "is_touched c" "cnt c = 0" "rjuge c = 15"
    "600 \<le> val c" "val c \<le> 710" "val c \<le> K" "K \<le> thr c" "600 + 1 / 5 \<le> K" "?R + 1 / 5 \<le> K"
    by (simp_all add: holding_def)
  have "\<bar>?x - (0.6 * ?R + 0.4 * val c)\<bar> \<le> 1 / 10"
    using to_float_nonneg [of r] r f(7,8) by (intro accurateD(1) [OF acc]) simp_all
  then have x: "?x \<le> K"
    using f(9,12) by linarith
  have sK: "smoothed fp r c \<le> K"
    unfolding smoothed_def constrain_def f(2,3) using x f(11) by (simp add: to_float_def)
  have sb: "600 \<le> smoothed fp r c" "smoothed fp r c \<le> 710"
    using constrain_bounds [of 600 710 ?x] by (simp_all add: smoothed_def f(2,3))
  have m: "\<not> condition_met fp r c"
    using sK f(4,10) by (simp add: condition_met_def)
  have nf: "\<not> flips fp r c"
    using m by (simp add: flips_def counted_def)
  show ?thesis
    using f sK sb m nf by (simp add: holding_def chan_update_def counted_def)
qed

lemma counting_run:
  assumes "accurate fp" and "counting fp v0 r k c" and "k + n \<le> 15"
    and "631 \<le> v0" and "v0 \<le> 710" and "to_float r + 51 \<le> v0"
  shows "counting fp v0 r (k + n) (chan_updates fp (replicate n r) c)"
  using assms(2,3)
proof (induction n arbitrary: k c)
  case 0
  then show ?case by (simp add: chan_updates_def)
next
  case (Suc n)
  have k: "k < 15" "Suc k + n \<le> 15"
    using Suc.prems(2) by simp_all
  have "counting fp v0 r (Suc k) (chan_update fp r c)"
    by (rule counting_step [OF assms(1) Suc.prems(1) k(1) assms(4,5,6)])
  then have "counting fp v0 r (Suc k + n) (chan_updates fp (replicate n r) (chan_update fp r c))"
    using k(2) by (rule Suc.IH)
  then show ?case
    by (simp add: chan_updates_Cons)
qed

lemma holding_run:
  assumes "accurate fp" and "to_float r \<le> 1024"
  shows "holding r K c \<Longrightarrow> holding r K (chan_updates fp (replicate n r) c)"
proof (induction n arbitrary: c)
  case 0
  then show ?case by (simp add: chan_updates_def)
next
  case (Suc n)
  have "holding r K (chan_update fp r c)"
    by (rule holding_step [OF assms(1) Suc.prems assms(2)])
  then have "holding r K (chan_updates fp (replicate n r) (chan_update fp r c))"
    by (rule Suc.IH)
  then show ?case
    by (simp add: chan_updates_Cons)
qed

lemma constant_stream_chan:
  assumes acc: "accurate fp" and c: "counting fp v0 r 0 c"
    and v0: "631 \<le> v0" "v0 \<le> 710" and r: "to_float r + 51 \<le> v0"
  shows "is_touched (chan_updates fp (replicate n r) c) \<longleftrightarrow> 16 \<le> n"
proof (cases "n \<le> 15")
  case True
  then have "0 + n \<le> 15"
    by simp
  then have "counting fp v0 r (0 + n) (chan_updates fp (replicate n r) c)"
    by (rule counting_run [OF acc c _ v0 r])
  then show ?thesis
    using True by (simp add: counting_def)
next
  case False
  define m where "m = n - 16"
  have n: "n = 15 + Suc m"
    using False by (simp add: m_def)
  let ?c15 = "chan_updates fp (replicate 15 r) c"
  have "(0 :: nat) + 15 \<le> 15"
    by simp
  then have "counting fp v0 r (0 + 15) ?c15"
    by (rule counting_run [OF acc c _ v0 r])
  then have c15: "counting fp v0 r 15 ?c15"
    by simp
  have rb: "to_float r \<le> 1024"
    using r v0 by linarith
  have "holding r (max (smoothed fp r ?c15) (max 600 (to_float r) + 1 / 5)) (chan_update fp r ?c15)"
    by (rule counting_flip(1) [OF acc c15 v0 r])
  then have "holding r (max (smoothed fp r ?c15) (max 600 (to_float r) + 1 / 5))
      (chan_updates fp (replicate m r) (chan_update fp r ?c15))"
    by (rule holding_run [OF acc rb])
  moreover have "replicate n r = replicate 15 r @ (r # replicate m r)"
    unfolding n by (simp only: replicate_add replicate_Suc)
  ultimately have "holding r (max (smoothed fp r ?c15) (max 600 (to_float r) + 1 / 5))
      (chan_updates fp (replicate n r) c)"
    by (simp only: chan_updates_append chan_updates_Cons)
  then show ?thesis
    using False by (simp add: holding_def)
qed

lemma chan_init_counting:
  assumes "to_float r \<le> val (chan_init fp raw)"
  shows "counting fp (val (chan_init fp raw)) r 0 (chan_init fp raw)"
  using assms chan_init_bounds [of fp raw]
  by (simp add: counting_def) (simp add: chan_init_def)

text \<open>
  C4, as amended. Take an active port right after construction (default parameters,
  released, counter 0) whose smoothed value \<open>v0\<close> is above 630, so that the threshold
  \<open>v0 - 30\<close> is above \<open>minValue = 600\<close>, and a constant stream of samples strictly
  below \<open>v0 - 50\<close>, so that the smoothed value is below the threshold from the first
  cycle on. Then the port is released after each of the first 15 cycles and touched after
  the 16th and after every later cycle of the stream: it goes from released to touched
  exactly once, at cycle \<open>touchJuge + 1 = 16\<close>. This holds for every accurate arithmetic,
  so for the arithmetic of the code. Whatever the samples and the arithmetic are, the port
  is not touched after fewer than 16 cycles.
\<close>
theorem constant_stream_touches_at_16:
  assumes "accurate fp" and "unat port < maxPort" and "bit usedPortMask (unat port)"
    and "s0 = MPR121Manager fp mem setAddress usedPortMask seed"
    and "\<forall>fd\<in>set fds. fd (unat port) = r"
    and "630 < value s0 (unat port)"
    and "to_float r < value s0 (unat port) - 50"
  shows "(\<forall>n\<le>length fds. isTouched (updates fp (take n fds) s0) port \<longleftrightarrow> 16 \<le> n) \<and>
         (\<forall>gds. length gds < 16 \<longrightarrow>
            \<not> isTouched (updates fp' gds (MPR121Manager fp' mem' setAddress' usedPortMask seed')) port)"
proof (intro conjI allI impI)
  let ?p = "unat port"
  let ?c = "chan_init fp (seed ?p)"
  let ?v0 = "val ?c"
  have c: "chan s0 ?p = ?c"
    unfolding assms(4) by (rule constructed_chan [OF assms(2,3)])
  have v: "value s0 ?p = ?v0"
    using arg_cong [OF c, of val] by (simp only: chan_sel)
  have a: "active (chan s0 ?p)"
    unfolding c by (simp add: chan_init_def)
  obtain w where w: "?v0 = to_float w"
    using constrain_to_float [of "seed ?p"] by (auto simp add: chan_init_def)
  have v0: "631 \<le> ?v0" "?v0 \<le> 710"
    using assms(6) to_float_above_630 [of w] chan_init_bounds(2) [of fp "seed ?p"]
    by (simp_all add: v w)
  have r: "to_float r + 51 \<le> ?v0"
    using assms(7) to_float_gap [of r w] by (simp add: v w)
  have "to_float r \<le> ?v0"
    using r by linarith
  then have c0: "counting fp ?v0 r 0 ?c"
    by (rule chan_init_counting)
  {
    fix n
    assume n: "n \<le> length fds"
    have "\<forall>fd\<in>set (take n fds). fd ?p = r"
      using assms(5) by (meson in_set_takeD)
    then have "map (\<lambda>fd. fd ?p) (take n fds) = replicate (length (take n fds)) r"
      by (rule constant_map)
    then have m: "map (\<lambda>fd. fd ?p) (take n fds) = replicate n r"
      using n by simp
    have "is_touched (chan_updates fp (replicate n r) ?c) \<longleftrightarrow> 16 \<le> n"
      by (rule constant_stream_chan [OF assms(1) c0 v0 r])
    then show "isTouched (updates fp (take n fds) s0) port \<longleftrightarrow> 16 \<le> n"
      using assms(2) a by (simp add: isTouched_updates m c)
  }
  {
    fix gds :: "(nat \<Rightarrow> uint16_t) list"
    assume "length gds < 16"
    then have "\<not> is_touched (chan_updates fp' (map (\<lambda>fd. fd ?p) gds) (chan_init fp' (seed' ?p)))"
      by (intro not_before_confirm) simp
    moreover have "chan (MPR121Manager fp' mem' setAddress' usedPortMask seed') ?p =
        chan_init fp' (seed' ?p)"
      by (rule constructed_chan [OF assms(2,3)])
    ultimately show
      "\<not> isTouched (updates fp' gds (MPR121Manager fp' mem' setAddress' usedPortMask seed')) port"
      by (simp add: isTouched_updates)
  }
qed

lemma constructed_value:
  "value (MPR121Manager fp mem a 3 (\<lambda>_. raw)) 0 = constrain (to_float raw) 600 710"
proof -
  have "chan (MPR121Manager fp mem a 3 (\<lambda>_. raw)) 0 = chan_init fp raw"
    by (rule constructed_chan) (simp_all add: maxPort_def)
  from arg_cong [OF this, of val] show ?thesis
    by (simp only: chan_sel) (simp add: chan_init_def)
qed

lemma warm_value: "value warm 0 = 700" "value warm_avr 0 = 700"
  by (simp_all add: warm_def warm_avr_def constructed_value constrain_def to_float_def)

theorem constant_stream_touches_at_16_witness:
  "accurate ieee_ops \<and>
   unat (0 :: uint8_t) < maxPort \<and> bit (3 :: uint16_t) (unat (0 :: uint8_t)) \<and>
   630 < value warm (unat (0 :: uint8_t)) \<and>
   to_float 600 < value warm (unat (0 :: uint8_t)) - 50 \<and>
   \<not> isTouched (updates ieee_ops (take 15 (replicate 20 (\<lambda>_. 600))) warm) 0 \<and>
   isTouched (updates ieee_ops (take 16 (replicate 20 (\<lambda>_. 600))) warm) 0 \<and>
   isTouched (updates ieee_ops (take 20 (replicate 20 (\<lambda>_. 600))) warm) 0 \<and>
   \<not> isTouched (updates avr_ops (replicate 15 (\<lambda>_. 0)) warm_avr) 0"
proof -
  let ?fds = "replicate 20 (\<lambda>_. 600) :: (nat \<Rightarrow> uint16_t) list"
  have m: "unat (0 :: uint8_t) < maxPort" by (simp add: maxPort_def)
  have h: "bit (3 :: uint16_t) (unat (0 :: uint8_t))" by simp
  have c: "\<forall>fd\<in>set ?fds. fd (unat (0 :: uint8_t)) = 600" by simp
  have v: "630 < value warm (unat (0 :: uint8_t))" by (simp add: warm_value)
  have r: "to_float 600 < value warm (unat (0 :: uint8_t)) - 50"
    by (simp add: warm_value to_float_def)
  note t = constant_stream_touches_at_16 [OF accurate_ieee_ops m h warm_def c v r,
      of avr_ops zero_mem "0x5A" "\<lambda>_. 700"]
  have l: "(15 :: nat) \<le> length ?fds" "(16 :: nat) \<le> length ?fds" "(20 :: nat) \<le> length ?fds"
    by simp_all
  have g: "length (replicate 15 (\<lambda>_. 0) :: (nat \<Rightarrow> uint16_t) list) < 16"
    by simp
  from t have f: "\<forall>n\<le>length ?fds.
      isTouched (updates ieee_ops (take n ?fds) warm) 0 \<longleftrightarrow> 16 \<le> n"
    by (rule conjunct1)
  from f l(1) have "isTouched (updates ieee_ops (take 15 ?fds) warm) 0 \<longleftrightarrow> (16 :: nat) \<le> 15"
    by blast
  then have a: "\<not> isTouched (updates ieee_ops (take 15 ?fds) warm) 0"
    by simp
  from f l(2) have "isTouched (updates ieee_ops (take 16 ?fds) warm) 0 \<longleftrightarrow> (16 :: nat) \<le> 16"
    by blast
  then have b: "isTouched (updates ieee_ops (take 16 ?fds) warm) 0"
    by simp
  from f l(3) have "isTouched (updates ieee_ops (take 20 ?fds) warm) 0 \<longleftrightarrow> (16 :: nat) \<le> 20"
    by blast
  then have d: "isTouched (updates ieee_ops (take 20 ?fds) warm) 0"
    by simp
  have e: "\<not> isTouched (updates avr_ops (replicate 15 (\<lambda>_. 0)) warm_avr) 0"
    unfolding warm_avr_def using t g by blast
  show ?thesis
    using accurate_ieee_ops m h v r a b d e by blast
qed

lemma constructed_released_600:
  assumes "accurate fp"
  shows "\<not> isTouched (updates fp fds (MPR121Manager fp mem a 3 (\<lambda>_. 600))) 0"
proof -
  let ?c = "chan (MPR121Manager fp mem a 3 (\<lambda>_. 600)) 0"
  have c: "?c = chan_init fp 600"
    by (rule constructed_chan) (simp_all add: maxPort_def)
  have "\<bar>fsub fp 600 30 - (600 - 30)\<bar> \<le> 1 / 10"
    by (rule accurateD(2) [OF assms]) simp_all
  then have t: "fsub fp 600 30 \<le> 600"
    by linarith
  have "\<not> is_touched (chan_updates fp (map (\<lambda>fd. fd 0) fds) ?c)"
    unfolding c
    by (rule chan_updates_stay_released) (simp_all add: chan_init_def constrain_def t)
  then show ?thesis
    by (simp add: isTouched_updates)
qed

lemma late_669:
  assumes "accurate fp"
  shows "\<not> isTouched (updates fp (replicate 16 (\<lambda>_. 669))
        (MPR121Manager fp mem a 3 (\<lambda>_. 700))) 0"
proof -
  let ?c = "chan_init fp 700"
  let ?x = "smooth fp 669 700"
  have c: "chan (MPR121Manager fp mem a 3 (\<lambda>_. 700)) 0 = ?c"
    by (rule constructed_chan) (simp_all add: maxPort_def)
  have f: "val ?c = 700" "thr ?c = fsub fp 700 30" "lo ?c = 600" "hi ?c = 710" "\<not> is_touched ?c"
    by (simp_all add: chan_init_def constrain_def to_float_def)
  have "\<bar>?x - (0.6 * 669 + 0.4 * 700)\<bar> \<le> 1 / 10"
    by (rule accurateD(1) [OF assms]) simp_all
  then have x: "681 \<le> ?x"
    by linarith
  have "\<bar>fsub fp 700 30 - (700 - 30)\<bar> \<le> 1 / 10"
    by (rule accurateD(2) [OF assms]) simp_all
  then have t: "thr ?c \<le> 671"
    unfolding f(2) by linarith
  have "smoothed fp 669 ?c = (if 710 < ?x then 710 else ?x)"
    unfolding smoothed_def constrain_def f(1,3,4) using x by (simp add: to_float_def)
  then have "681 \<le> smoothed fp 669 ?c"
    using x by simp
  then have nm: "\<not> condition_met fp 669 ?c"
    using t f(5) by (simp add: condition_met_def)
  have "\<not> is_touched (chan_updates fp (669 # replicate 15 669) ?c)"
  proof (rule late_start [OF _ _ nm])
    show "active ?c" "\<not> is_touched ?c"
      by (simp_all add: chan_init_def)
    show "length (replicate 15 (669 :: uint16_t)) \<le> unat (confirm_count ?c)"
      by (simp add: chan_init_def confirm_count_def)
  qed
  then have "\<not> is_touched (chan_updates fp (replicate 16 669) ?c)"
    unfolding replicate_16 .
  then show ?thesis
    by (simp add: isTouched_updates c)
qed

text \<open>
  C4 as stated fails twice, in the arithmetic of the code. With the seed 600 the threshold
  is 570 and the clamp keeps the smoothed value at 600 or above: a constant stream of 0,
  which is below the threshold, never makes the port touched. With the seed 700 the
  threshold is 670; the constant sample 669 is below it, but the first smoothed value is
  above 681, the condition fails in the first cycle, and after 16 cycles the port is still
  released.
\<close>
theorem constant_stream_counterexample:
  "to_float 0 < value (MPR121Manager ieee_ops zero_mem 0x5A 3 (\<lambda>_. 600)) 0 - 30 \<and>
   \<not> isTouched (updates ieee_ops (replicate 16 (\<lambda>_. 0))
        (MPR121Manager ieee_ops zero_mem 0x5A 3 (\<lambda>_. 600))) 0 \<and>
   \<not> isTouched (updates ieee_ops (replicate 1000 (\<lambda>_. 0))
        (MPR121Manager ieee_ops zero_mem 0x5A 3 (\<lambda>_. 600))) 0 \<and>
   to_float 669 < value (MPR121Manager ieee_ops zero_mem 0x5A 3 (\<lambda>_. 700)) 0 - 30 \<and>
   \<not> isTouched (updates ieee_ops (replicate 16 (\<lambda>_. 669))
        (MPR121Manager ieee_ops zero_mem 0x5A 3 (\<lambda>_. 700))) 0 \<and>
   \<not> isTouched (updates avr_ops (replicate 16 (\<lambda>_. 0))
        (MPR121Manager avr_ops zero_mem 0x5A 3 (\<lambda>_. 600))) 0 \<and>
   \<not> isTouched (updates avr_ops (replicate 16 (\<lambda>_. 669))
        (MPR121Manager avr_ops zero_mem 0x5A 3 (\<lambda>_. 700))) 0"
proof -
  have a: "to_float 0 < value (MPR121Manager ieee_ops zero_mem 0x5A 3 (\<lambda>_. 600)) 0 - 30"
    by (simp add: constructed_value constrain_def to_float_def)
  have b: "to_float 669 < value (MPR121Manager ieee_ops zero_mem 0x5A 3 (\<lambda>_. 700)) 0 - 30"
    by (simp add: constructed_value constrain_def to_float_def)
  show ?thesis
    using a b constructed_released_600 [OF accurate_ieee_ops] late_669 [OF accurate_ieee_ops]
      constructed_released_600 [OF accurate_avr_ops] late_669 [OF accurate_avr_ops]
    by blast
qed

section \<open>The scenario of the specification\<close>

lemma holding_releasing: "holding r K c \<Longrightarrow> thr c \<le> 661 \<Longrightarrow> releasing 0 c"
  by (simp add: holding_def releasing_def)

lemma releasing_smoothed:
  assumes acc: "accurate fp" and c: "releasing k c" and k: "k \<le> 15"
  shows "600 \<le> smoothed fp 710 c"
    and "smoothed fp 710 c \<le> 710"
    and "condition_met fp 710 c"
    and "unat (counted fp 710 c) = Suc k"
proof -
  let ?x = "smooth fp 710 (val c)"
  from c have f: "active c" "lo c = 600" "hi c = 710" "is_touched c" "unat (cnt c) = k"
    "rjuge c = 15" "600 \<le> val c" "val c \<le> 710" "thr c \<le> 661"
    by (simp_all add: releasing_def)
  have "\<bar>?x - (0.6 * 710 + 0.4 * val c)\<bar> \<le> 1 / 10"
    using f(7,8) by (intro accurateD(1) [OF acc]) simp_all
  then have x: "665 \<le> ?x"
    using f(7) by linarith
  have s: "smoothed fp 710 c = (if 710 < ?x then 710 else ?x)"
    unfolding smoothed_def constrain_def f(2,3) using x by (simp add: to_float_def)
  show "600 \<le> smoothed fp 710 c" "smoothed fp 710 c \<le> 710"
    using x by (simp_all add: s)
  have "665 \<le> smoothed fp 710 c"
    using x by (simp add: s)
  then show m: "condition_met fp 710 c"
    using f(4,9) by (simp add: condition_met_def)
  show "unat (counted fp 710 c) = Suc k"
    using m f(5) k by (simp add: counted_def unat_cnt_succ)
qed

lemma releasing_step:
  assumes "accurate fp" and "releasing k c" and "k < 15"
  shows "releasing (Suc k) (chan_update fp 710 c)"
proof -
  from assms(2) have f: "active c" "lo c = 600" "hi c = 710" "is_touched c"
    "rjuge c = 15" "thr c \<le> 661"
    by (simp_all add: releasing_def)
  have k: "k \<le> 15"
    using assms(3) by simp
  note s = releasing_smoothed [OF assms(1,2) k]
  have nf: "\<not> flips fp 710 c"
    using s(4) assms(3) f(4,5) by (simp add: flips_def confirm_count_def word_less_nat_alt)
  show ?thesis
    using f s nf by (simp add: releasing_def chan_update_def)
qed

lemma releasing_flip:
  assumes "accurate fp" and "releasing 15 c"
  shows "\<not> is_touched (chan_update fp 710 c)"
proof -
  from assms(2) have f: "active c" "is_touched c" "rjuge c = 15"
    by (simp_all add: releasing_def)
  note s = releasing_smoothed [OF assms order_refl]
  have "flips fp 710 c"
    using s(4) f by (simp add: flips_def confirm_count_def word_less_nat_alt)
  then show ?thesis
    using f by (simp add: chan_update_def)
qed

lemma releasing_run:
  assumes "accurate fp" and "releasing k c" and "k + n \<le> 15"
  shows "releasing (k + n) (chan_updates fp (replicate n 710) c)"
  using assms(2,3)
proof (induction n arbitrary: k c)
  case 0
  then show ?case by (simp add: chan_updates_def)
next
  case (Suc n)
  have k: "k < 15" "Suc k + n \<le> 15"
    using Suc.prems(2) by simp_all
  have "releasing (Suc k) (chan_update fp 710 c)"
    by (rule releasing_step [OF assms(1) Suc.prems(1) k(1)])
  then have "releasing (Suc k + n) (chan_updates fp (replicate n 710) (chan_update fp 710 c))"
    using k(2) by (rule Suc.IH)
  then show ?case
    by (simp add: chan_updates_Cons)
qed

lemma touch_then_release_chan:
  fixes raw :: uint16_t
  assumes acc: "accurate fp" and raw: "raw = 700"
  shows "is_touched (chan_updates fp (replicate 16 600) (chan_init fp raw))"
    and "\<not> is_touched (chan_updates fp (replicate 16 600 @ replicate 16 710) (chan_init fp raw))"
proof -
  let ?c = "chan_init fp raw"
  let ?c15 = "chan_updates fp (replicate 15 600) ?c"
  let ?c16 = "chan_updates fp (replicate 16 600) ?c"
  have v: "val ?c = 700"
    unfolding raw by (simp add: chan_init_def constrain_def to_float_def)
  have "counting fp (val ?c) 600 0 ?c"
    by (rule chan_init_counting) (simp add: v to_float_def)
  then have c0: "counting fp 700 600 0 ?c"
    by (simp only: v)
  have p: "(631 :: real) \<le> 700" "(700 :: real) \<le> 710" "to_float 600 + 51 \<le> 700"
    by (simp_all add: to_float_def)
  have "(0 :: nat) + 15 \<le> 15"
    by simp
  then have "counting fp 700 600 (0 + 15) ?c15"
    by (rule counting_run [OF acc c0 _ p])
  then have c15: "counting fp 700 600 15 ?c15"
    by simp
  note fl = counting_flip [OF acc c15 p]
  have e: "?c16 = chan_update fp 600 ?c15"
    by (simp only: replicate_16_snoc chan_updates_append chan_updates_Cons chan_updates_Nil)
  have "thr (chan_update fp 600 ?c15) \<le> 661"
    using fl(2,3) by (simp add: to_float_def max_def split: if_splits)
  with fl(1) have "releasing 0 (chan_update fp 600 ?c15)"
    by (rule holding_releasing)
  then have r0: "releasing 0 ?c16"
    by (simp only: e)
  then show "is_touched ?c16"
    by (simp add: releasing_def)
  have "(0 :: nat) + 15 \<le> 15"
    by simp
  then have "releasing (0 + 15) (chan_updates fp (replicate 15 710) ?c16)"
    by (rule releasing_run [OF acc r0])
  then have "releasing 15 (chan_updates fp (replicate 15 710) ?c16)"
    by simp
  then have "\<not> is_touched (chan_update fp 710 (chan_updates fp (replicate 15 710) ?c16))"
    by (rule releasing_flip [OF acc])
  moreover have "chan_updates fp (replicate 16 600 @ replicate 16 710) ?c =
      chan_update fp 710 (chan_updates fp (replicate 15 710) ?c16)"
    by (simp only: replicate_16_snoc [of "710 :: uint16_t"] chan_updates_append chan_updates_Cons
        chan_updates_Nil)
  ultimately show "\<not> is_touched (chan_updates fp (replicate 16 600 @ replicate 16 710) ?c)"
    by simp
qed

lemma constructed_touch_then_release:
  assumes "accurate fp"
  shows "isTouched (updates fp (replicate 16 (\<lambda>_. 600))
     (MPR121Manager fp mem a 3 (\<lambda>_. 700))) 0"
    and "\<not> isTouched (updates fp (replicate 16 (\<lambda>_. 600) @ replicate 16 (\<lambda>_. 710))
     (MPR121Manager fp mem a 3 (\<lambda>_. 700))) 0"
proof -
  let ?s = "MPR121Manager fp mem a 3 (\<lambda>_. 700)"
  have c: "chan ?s 0 = chan_init fp 700"
    by (rule constructed_chan) (simp_all add: maxPort_def)
  have a: "(0 :: nat) < maxPort" "active (chan_init fp 700)"
    by (simp_all add: maxPort_def chan_init_def)
  show "isTouched (updates fp (replicate 16 (\<lambda>_. 600)) ?s) 0"
    using touch_then_release_chan(1) [OF assms refl] a by (simp add: isTouched_updates c)
  show "\<not> isTouched (updates fp (replicate 16 (\<lambda>_. 600) @ replicate 16 (\<lambda>_. 710)) ?s) 0"
    using touch_then_release_chan(2) [OF assms refl] by (simp add: isTouched_updates c)
qed

text \<open>
  C1, as amended. A manager is constructed on ports 0 and 1, and port 0 has the default
  parameters. When the seed sample is 600, as the scenario has it, the smoothed value is
  600 and the threshold 570: feeding the sample 600 for 16 cycles (for any number of
  cycles) leaves \<open>isTouched(0)\<close> false, because the smoothed value is clamped at 600 and
  never falls below the threshold, and feeding 710 for 16 further cycles (for any number)
  leaves it false. When the seed sample is 700 instead, the run is the one the scenario
  describes: after 16 cycles at the sample 600 \<open>isTouched(0)\<close> is true, and after 16
  further cycles at 710 it is false again. This holds for every accurate arithmetic, so
  for the arithmetic of the code. \<open>isTouched(5)\<close> is false throughout, port 5 being
  inactive, whatever the samples and the arithmetic.
\<close>
theorem scenario_outcomes:
  assumes "accurate fp"
  shows "\<not> isTouched (updates fp (replicate n (\<lambda>_. 600) @ replicate m (\<lambda>_. 710))
             (MPR121Manager fp mem setAddress 3 (\<lambda>_. 600))) 0 \<and>
         isTouched (updates fp (replicate 16 (\<lambda>_. 600))
             (MPR121Manager fp mem setAddress 3 (\<lambda>_. 700))) 0 \<and>
         \<not> isTouched (updates fp (replicate 16 (\<lambda>_. 600) @ replicate 16 (\<lambda>_. 710))
             (MPR121Manager fp mem setAddress 3 (\<lambda>_. 700))) 0 \<and>
         \<not> isTouched (updates fp' fds (MPR121Manager fp' mem' setAddress' 3 seed)) 5"
  using constructed_released_600 [OF assms] constructed_touch_then_release [OF assms]
    constructed_inactive_5
  by blast

theorem scenario_outcomes_witness:
  "accurate ieee_ops \<and>
   \<not> isTouched (updates ieee_ops (replicate 16 (\<lambda>_. 600) @ replicate 16 (\<lambda>_. 710))
        (MPR121Manager ieee_ops zero_mem 0x5A 3 (\<lambda>_. 600))) 0 \<and>
   isTouched (updates ieee_ops (replicate 16 (\<lambda>_. 600))
        (MPR121Manager ieee_ops zero_mem 0x5A 3 (\<lambda>_. 700))) 0 \<and>
   \<not> isTouched (updates ieee_ops (replicate 16 (\<lambda>_. 600) @ replicate 16 (\<lambda>_. 710))
        (MPR121Manager ieee_ops zero_mem 0x5A 3 (\<lambda>_. 700))) 0 \<and>
   \<not> isTouched (updates avr_ops (replicate 16 (\<lambda>_. 600) @ replicate 16 (\<lambda>_. 710))
        (MPR121Manager avr_ops zero_mem 0x5A 3 (\<lambda>_. 600))) 5"
  using scenario_outcomes [OF accurate_ieee_ops, of 16 16 zero_mem "0x5A"] accurate_ieee_ops
  by blast

text \<open>
  C1 as stated fails in the arithmetic of the code: after the seed 600 and 16 cycles at
  the sample 600 the claim has \<open>isTouched(0)\<close> true.
\<close>
theorem scenario_touch_counterexample:
  "\<not> isTouched (updates ieee_ops (replicate 16 (\<lambda>_. 600))
        (MPR121Manager ieee_ops zero_mem 0x5A 3 (\<lambda>_. 600))) 0 \<and>
   \<not> isTouched (updates avr_ops (replicate 16 (\<lambda>_. 600))
        (MPR121Manager avr_ops zero_mem 0x5A 3 (\<lambda>_. 600))) 0"
  using constructed_released_600 [OF accurate_ieee_ops] constructed_released_600 [OF accurate_avr_ops]
  by blast

end
